theory Spec2Isabelle
  imports Main
begin

section \<open>Python strings and paths used by the web server\<close>

text \<open>
  A Python \<open>str\<close> is modelled as a \<open>string\<close>; a \<open>char\<close> stands for a code point
  below 256. The functions of this section are the library calls that
  \<open>web_server.py\<close> makes on strings (\<open>str.lower\<close>, \<open>str.rsplit\<close>, \<open>str.split\<close>,
  \<open>str.strip\<close>, \<open>os.path.join\<close>, \<open>os.path.basename\<close>, \<open>os.path.splitext\<close>), on a POSIX
  system, which the absolute paths \<open>/app/uploads\<close> and \<open>/app/output_audiobooks\<close> of the
  source presuppose.
\<close>

definition py_lower_char :: "char \<Rightarrow> char" where
  \<comment> \<open>\<open>str.lower\<close> on one code point below 256: A-Z, and the Latin-1 capitals
      U+00C0..U+00DE except the multiplication sign U+00D7.\<close>
  "py_lower_char c =
     (let n = of_char c :: nat in
      if 65 \<le> n \<and> n \<le> 90 then char_of (n + 32)
      else if 192 \<le> n \<and> n \<le> 222 \<and> n \<noteq> 215 then char_of (n + 32)
      else c)"

definition py_lower :: "string \<Rightarrow> string" where
  "py_lower s = map py_lower_char s"

definition after_last :: "char \<Rightarrow> string \<Rightarrow> string" where
  \<comment> \<open>the text after the last occurrence of \<open>c\<close> (all of \<open>s\<close> when there is none)\<close>
  "after_last c s = rev (takeWhile (\<lambda>x. x \<noteq> c) (rev s))"

definition before_last :: "char \<Rightarrow> string \<Rightarrow> string" where
  \<comment> \<open>the text before the last occurrence of \<open>c\<close> (empty when there is none)\<close>
  "before_last c s = rev (tl (dropWhile (\<lambda>x. x \<noteq> c) (rev s)))"

definition py_rsplit1 :: "char \<Rightarrow> string \<Rightarrow> string list" where
  \<comment> \<open>\<open>s.rsplit(c, 1)\<close>: at most one split, at the last \<open>c\<close>\<close>
  "py_rsplit1 c s = (if c \<in> set s then [before_last c s, after_last c s] else [s])"

definition py_rfind :: "char \<Rightarrow> string \<Rightarrow> int" where
  \<comment> \<open>\<open>s.rfind(c)\<close>: the highest index of \<open>c\<close>, or -1\<close>
  "py_rfind c s = (if c \<in> set s then int (length (before_last c s)) else - 1)"

datatype exn = IndexError | ValueError | Exception string
  \<comment> \<open>\<open>Exception msg\<close>: any other exception \<open>e\<close> that \<open>except Exception\<close>
      catches, with \<open>str(e) = msg\<close> (an \<open>OSError\<close> of \<open>open\<close> or \<open>save\<close>, say)\<close>

definition py_index :: "'a list \<Rightarrow> nat \<Rightarrow> exn + 'a" where
  \<comment> \<open>\<open>xs[i]\<close> for a non-negative index\<close>
  "py_index xs i = (if i < length xs then Inr (xs ! i) else Inl IndexError)"

definition py_isspace :: "char \<Rightarrow> bool" where
  \<comment> \<open>\<open>str.isspace\<close> on one code point below 256: tab to carriage return, the four
      separators U+001C..U+001F, space, U+0085 and U+00A0\<close>
  "py_isspace c = (of_char c \<in> {9, 10, 11, 12, 13, 28, 29, 30, 31, 32, 133, 160 :: nat})"

fun split_words :: "string \<Rightarrow> string \<Rightarrow> string list" where
  \<comment> \<open>the word being read (reversed), then the rest of the text\<close>
  "split_words cur [] = (if cur = [] then [] else [rev cur])"
| "split_words cur (c # cs) =
     (if py_isspace c then (if cur = [] then split_words [] cs else rev cur # split_words [] cs)
      else split_words (c # cur) cs)"

definition py_split :: "string \<Rightarrow> string list" where
  \<comment> \<open>\<open>s.split()\<close>: the maximal runs of characters that are not whitespace\<close>
  "py_split s = split_words [] s"

fun py_join :: "string \<Rightarrow> string list \<Rightarrow> string" where
  \<comment> \<open>\<open>sep.join(xs)\<close>\<close>
  "py_join sep [] = []"
| "py_join sep [x] = x"
| "py_join sep (x # y # ys) = x @ sep @ py_join sep (y # ys)"

definition py_replace_char :: "char \<Rightarrow> char \<Rightarrow> string \<Rightarrow> string" where
  \<comment> \<open>\<open>s.replace(old, new)\<close> for one-character \<open>old\<close> and \<open>new\<close>\<close>
  "py_replace_char old new s = map (\<lambda>c. if c = old then new else c) s"

definition py_strip :: "(char \<Rightarrow> bool) \<Rightarrow> string \<Rightarrow> string" where
  \<comment> \<open>\<open>s.strip(chars)\<close>: the characters of the set are removed from both ends\<close>
  "py_strip drop_it s = rev (dropWhile drop_it (rev (dropWhile drop_it s)))"

definition is_digit :: "char \<Rightarrow> bool" where
  "is_digit c = (48 \<le> (of_char c :: nat) \<and> (of_char c :: nat) \<le> 57)"

definition ascii_alnum :: "char \<Rightarrow> bool" where
  \<comment> \<open>\<open>[A-Za-z0-9]\<close>\<close>
  "ascii_alnum c =
     (let n = of_char c :: nat in
      (48 \<le> n \<and> n \<le> 57) \<or> (65 \<le> n \<and> n \<le> 90) \<or> (97 \<le> n \<and> n \<le> 122))"

subsection \<open>Integers and their decimal text\<close>

fun nat_digits :: "nat \<Rightarrow> string" where
  "nat_digits n =
     (if n < 10 then [char_of (48 + n)] else nat_digits (n div 10) @ [char_of (48 + n mod 10)])"

definition py_str :: "int \<Rightarrow> string" where
  \<comment> \<open>\<open>str(i)\<close>, which is what \<open>{i}\<close> in an f-string inserts\<close>
  "py_str i = (if i < 0 then CHR ''-'' # nat_digits (nat (- i)) else nat_digits (nat i))"

definition py_range :: "int \<Rightarrow> int \<Rightarrow> int \<Rightarrow> int list" where
  \<comment> \<open>\<open>range(start, stop, step)\<close> for a positive \<open>step\<close>\<close>
  "py_range start stop step =
     map (\<lambda>k. start + int k * step) [0 ..< nat ((stop - start + step - 1) div step)]"

fun digits_underscores :: "string \<Rightarrow> bool" where
  \<comment> \<open>decimal digits, with single underscores between digits only\<close>
  "digits_underscores [] = False"
| "digits_underscores [c] = is_digit c"
| "digits_underscores (c # d # cs) =
     (is_digit c \<and> (if d = CHR ''_'' then digits_underscores cs else digits_underscores (d # cs)))"

definition digits_value :: "string \<Rightarrow> int" where
  "digits_value ds = foldl (\<lambda>acc c. 10 * acc + (int (of_char c) - 48)) 0 ds"

definition c_isspace :: "char \<Rightarrow> bool" where
  \<comment> \<open>C's \<open>isspace\<close> in the C locale (\<open>Py_ISSPACE\<close>): tab to carriage return, and space\<close>
  "c_isspace c = (of_char c \<in> {9, 10, 11, 12, 13, 32 :: nat})"

definition space_to_ascii :: "char \<Rightarrow> char" where
  \<comment> \<open>what \<open>int\<close> does first to a code point from 127 on that is whitespace (below
      256: U+0085 and U+00A0): it becomes a space. The other code points from 127 on
      below 256 are no decimal digits, and they make \<open>int\<close> fail as they do here, where
      they stay.\<close>
  "space_to_ascii c = (if of_char c \<in> {133, 160 :: nat} then CHR '' '' else c)"

definition int_max_str_digits :: nat where
  \<comment> \<open>\<open>sys.int_info.default_max_str_digits\<close>\<close>
  "int_max_str_digits = 4300"

definition py_int :: "string \<Rightarrow> exn + int" where
  \<comment> \<open>\<open>int(s)\<close> for a string \<open>s\<close> (CPython 3.11, \<open>PyLong_FromUnicodeObject\<close> and
      \<open>PyLong_FromString\<close> in base 10): whitespace at both ends is skipped, then an optional
      sign, then digits with single underscores between them, no more than
      \<open>int_max_str_digits\<close> digits; anything else raises \<open>ValueError\<close>\<close>
  "py_int s =
     (let t = py_strip c_isspace (map space_to_ascii s);
          neg = (t \<noteq> [] \<and> hd t = CHR ''-'');
          body = (if t \<noteq> [] \<and> (hd t = CHR ''-'' \<or> hd t = CHR ''+'') then tl t else t);
          digits = filter (\<lambda>c. c \<noteq> CHR ''_'') body
      in if digits_underscores body \<and> length digits \<le> int_max_str_digits
         then Inr ((if neg then - 1 else 1) * digits_value digits)
         else Inl ValueError)"

subsection \<open>Paths\<close>

definition os_path_join :: "string \<Rightarrow> string \<Rightarrow> string" where
  \<comment> \<open>\<open>posixpath.join(a, b)\<close>\<close>
  "os_path_join a b =
     (if b \<noteq> [] \<and> hd b = CHR ''/'' then b
      else if a = [] \<or> last a = CHR ''/'' then a @ b
      else a @ ''/'' @ b)"

definition os_path_basename :: "string \<Rightarrow> string" where
  \<comment> \<open>\<open>i = p.rfind('/') + 1; return p[i:]\<close>\<close>
  "os_path_basename p = drop (nat (py_rfind CHR ''/'' p + 1)) p"

definition py_slice :: "string \<Rightarrow> int \<Rightarrow> int \<Rightarrow> string" where
  \<comment> \<open>\<open>s[i:j]\<close> for indices that are not negative\<close>
  "py_slice s i j = drop (nat i) (take (nat j) s)"

definition os_path_splitext :: "string \<Rightarrow> string \<times> string" where
  \<comment> \<open>\<open>genericpath._splitext(p, '/', None, '.')\<close>: the extension starts at the last dot,
      unless the dot comes before the last slash or only dots stand between them (the
      loop that skips leading dots)\<close>
  "os_path_splitext p =
     (let sepIndex = py_rfind CHR ''/'' p;
          dotIndex = py_rfind CHR ''.'' p
      in if dotIndex > sepIndex \<and> list_ex (\<lambda>c. c \<noteq> CHR ''.'') (py_slice p (sepIndex + 1) dotIndex)
         then (take (nat dotIndex) p, drop (nat dotIndex) p)
         else (p, []))"

subsection \<open>werkzeug's \<open>secure_filename\<close>\<close>

text \<open>
  \<open>secure_filename\<close> is imported from \<open>werkzeug.utils\<close>; this is its body on a POSIX
  system (\<open>os.sep\<close> is \<open>/\<close>, \<open>os.path.altsep\<close> is \<open>None\<close>, \<open>os.name\<close> is not \<open>nt\<close>):
  \<^verbatim>\<open>
  filename = unicodedata.normalize("NFKD", filename)
  filename = filename.encode("ascii", "ignore").decode("ascii")
  for sep in os.sep, os.path.altsep:
      if sep:
          filename = filename.replace(sep, " ")
  filename = str(_filename_ascii_strip_re.sub("", "_".join(filename.split()))).strip("._")
  \<close>
  with \<open>_filename_ascii_strip_re = re.compile(r"[^A-Za-z0-9_.-]")\<close>. The first two lines
  leave an ASCII character as it is and turn any other one into the ASCII characters of
  its compatibility decomposition; that table of the Unicode database is the parameter
  \<open>decomp\<close>.
\<close>

definition nfkd_ascii :: "(char \<Rightarrow> string) \<Rightarrow> string \<Rightarrow> string" where
  "nfkd_ascii decomp s =
     concat (map (\<lambda>c. if (of_char c :: nat) < 128 then [c] else decomp c) s)"

definition filename_keep :: "char \<Rightarrow> bool" where
  \<comment> \<open>the characters that \<open>_filename_ascii_strip_re\<close> leaves\<close>
  "filename_keep c = (ascii_alnum c \<or> c = CHR ''_'' \<or> c = CHR ''.'' \<or> c = CHR ''-'')"

definition secure_filename :: "(char \<Rightarrow> string) \<Rightarrow> string \<Rightarrow> string" where
  "secure_filename decomp filename =
     (let f1 = nfkd_ascii decomp filename;
          f2 = py_replace_char CHR ''/'' CHR '' '' f1
      in py_strip (\<lambda>c. c = CHR ''.'' \<or> c = CHR ''_'')
           (filter filename_keep (py_join ''_'' (py_split f2))))"

section \<open>The extension test\<close>

definition ALLOWED_EXTENSIONS :: "string set" where
  "ALLOWED_EXTENSIONS =
     {''epub'', ''pdf'', ''mobi'', ''txt'', ''html'', ''rtf'', ''fb2'', ''odt'', ''cbr'', ''cbz''}"

definition allowed_file :: "string \<Rightarrow> exn + bool" where
  \<comment> \<open>\<open>'.' in filename and filename.rsplit('.', 1)[1].lower() in ALLOWED_EXTENSIONS\<close>;
      \<open>and\<close> does not evaluate its right operand when the left one is false.\<close>
  "allowed_file filename =
     (if CHR ''.'' \<in> set filename then
        (case py_index (py_rsplit1 CHR ''.'' filename) 1 of
           Inl e \<Rightarrow> Inl e
         | Inr ext \<Rightarrow> Inr (py_lower ext \<in> ALLOWED_EXTENSIONS))
      else Inr False)"

section \<open>Shared state\<close>

datatype pyval = PNone | PStr string | PInt int
  \<comment> \<open>the values that \<open>job_status\<close> holds: \<open>None\<close>, a \<open>str\<close>, an \<open>int\<close>\<close>

type_synonym py_dict = "string \<rightharpoonup> pyval"

record options =
  tts_model :: string
  use_gpu :: bool
  chapter_delimiter :: string
  silence_duration :: int

text \<open>
  The state that the request handlers and the workers share: the module's globals
  \<open>job_status\<close> (a dictionary) and \<open>current_job\<close> (\<open>None\<close> or a path), the file system (a
  path's content), and the threads started with target \<open>process_book_job\<close>, in the order
  of their start, each with its arguments.
\<close>

record world =
  job_status :: py_dict
  current_job :: "string option"
  disk :: "string \<rightharpoonup> string"
  threads :: "(string \<times> options) list"

definition UPLOAD_FOLDER :: string where
  "UPLOAD_FOLDER = ''/app/uploads''"

definition OUTPUT_FOLDER :: string where
  "OUTPUT_FOLDER = ''/app/output_audiobooks''"

definition initial_job_status :: py_dict where
  "initial_job_status =
     map_of [(''status'', PStr ''idle''), (''progress'', PInt 0),
             (''message'', PStr ''Ready to process books''),
             (''start_time'', PNone), (''output_file'', PNone)]"

definition initial_world :: world where
  "initial_world =
     \<lparr>job_status = initial_job_status, current_job = None, disk = Map.empty, threads = []\<rparr>"

section \<open>What lies outside the program\<close>

datatype sleep_site = Text_sleep int | Audio_sleep int | Final_sleep
  \<comment> \<open>the calls of \<open>time.sleep\<close> in \<open>process_book_job\<close>: in the first loop and in the
      second, each at its value of \<open>i\<close>, and the one before the output is written\<close>

text \<open>
  \<open>VOXNOVEL_AVAILABLE\<close> is set once, when the module is imported. While a worker sleeps
  the other threads run: \<open>during_sleep\<close> is what they do to the shared state meanwhile
  (between two sleeps a worker's statements are taken as one step). A library call may
  raise: \<open>sleep_raises\<close>, \<open>open_raises\<close> (opening and writing the output file, which leaves
  the disk as it was) and \<open>save_raises\<close> (\<open>file.save\<close>) give the text of the exception, if
  any.
\<close>

record env =
  VOXNOVEL_AVAILABLE :: bool
  unicode_decomp :: "char \<Rightarrow> string"
  now_isoformat :: string
  during_sleep :: "sleep_site \<Rightarrow> world \<Rightarrow> world"
  sleep_raises :: "sleep_site \<Rightarrow> string option"
  open_raises :: "string \<Rightarrow> string option"
  save_raises :: "string \<Rightarrow> string option"

section \<open>The upload handler\<close>

record file_storage =
  filename :: string
  stream :: string

record request =
  files :: "string \<rightharpoonup> file_storage"
  form :: "string \<rightharpoonup> string"

record response =
  body :: "(string \<times> string) list"
  code :: nat

definition jsonify :: "(string \<times> string) list \<Rightarrow> nat \<Rightarrow> response" where
  \<comment> \<open>\<open>return jsonify({...}), code\<close>; the code is 200 when none is given\<close>
  "jsonify kvs c = \<lparr>body = kvs, code = c\<rparr>"

definition py_truthy :: "string option \<Rightarrow> bool" where
  \<comment> \<open>the truth value of \<open>None\<close> or a \<open>str\<close>: \<open>None\<close> and the empty string are false\<close>
  "py_truthy v = (case v of None \<Rightarrow> False | Some s \<Rightarrow> s \<noteq> [])"

definition form_get :: "request \<Rightarrow> string \<Rightarrow> string \<Rightarrow> string" where
  \<comment> \<open>\<open>request.form.get(key, default)\<close> with a string default\<close>
  "form_get req key dflt = (case form req key of None \<Rightarrow> dflt | Some v \<Rightarrow> v)"

definition get_options :: "request \<Rightarrow> exn + options" where
  \<comment> \<open>the dictionary \<open>options\<close>; \<open>int\<close> is the identity on the default \<open>500\<close>\<close>
  "get_options req =
     (case (case form req ''silence_duration'' of None \<Rightarrow> Inr 500 | Some v \<Rightarrow> py_int v) of
        Inl e \<Rightarrow> Inl e
      | Inr n \<Rightarrow>
          Inr \<lparr>tts_model = form_get req ''tts_model'' ''xtts_v2'',
               use_gpu = (py_lower (form_get req ''use_gpu'' ''true'') = ''true''),
               chapter_delimiter = form_get req ''chapter_delimiter'' ''Chapter'',
               silence_duration = n\<rparr>)"

definition upload_file :: "env \<Rightarrow> request \<Rightarrow> world \<Rightarrow> (exn + response) \<times> world" where
  "upload_file env req w =
     (if py_truthy (current_job w) then
        (Inr (jsonify [(''error'', ''Another job is already running'')] 400), w)
      else case files req ''file'' of
        None \<Rightarrow> (Inr (jsonify [(''error'', ''No file provided'')] 400), w)
      | Some file \<Rightarrow>
          if filename file = [] then
            (Inr (jsonify [(''error'', ''No file selected'')] 400), w)
          else case (if filename file \<noteq> [] then allowed_file (filename file) else Inr False) of
            Inl e \<Rightarrow> (Inl e, w)
          | Inr False \<Rightarrow> (Inr (jsonify [(''error'', ''File type not allowed'')] 400), w)
          | Inr True \<Rightarrow>
              let fname = secure_filename (unicode_decomp env) (filename file);
                  filepath = os_path_join UPLOAD_FOLDER fname
              in case save_raises env filepath of
                Some e \<Rightarrow> (Inl (Exception e), w)
              | None \<Rightarrow>
                  let w1 = w\<lparr>disk := (disk w)(filepath \<mapsto> stream file)\<rparr>
                  in case get_options req of
                    Inl e \<Rightarrow> (Inl e, w1)
                  | Inr opts \<Rightarrow>
                      (Inr (jsonify [(''message'', ''File uploaded and processing started''),
                                     (''filename'', fname)] 200),
                       w1\<lparr>threads := threads w1 @ [(filepath, opts)]\<rparr>))"

section \<open>The background worker\<close>

datatype event =
    Token_write "string option"
  | Status_write "(string \<times> pyval) list" py_dict
  | File_write string string
  \<comment> \<open>what a worker writes: \<open>current_job\<close>; \<open>job_status\<close> (the keys and values given to
      \<open>update\<close>, and the dictionary after it); a file and its content\<close>

record thread_state =
  shared :: world
  writes :: "event list"

definition set_current_job :: "string option \<Rightarrow> thread_state \<Rightarrow> thread_state" where
  "set_current_job v r =
     r\<lparr>shared := (shared r)\<lparr>current_job := v\<rparr>, writes := writes r @ [Token_write v]\<rparr>"

definition update_job_status :: "(string \<times> pyval) list \<Rightarrow> thread_state \<Rightarrow> thread_state" where
  \<comment> \<open>\<open>job_status.update({...})\<close>: the keys given are set, the other ones stay\<close>
  "update_job_status d r =
     (let js = job_status (shared r) ++ map_of d
      in r\<lparr>shared := (shared r)\<lparr>job_status := js\<rparr>, writes := writes r @ [Status_write d js]\<rparr>)"

definition write_file :: "string \<Rightarrow> string \<Rightarrow> thread_state \<Rightarrow> thread_state" where
  "write_file path text r =
     r\<lparr>shared := (shared r)\<lparr>disk := (disk (shared r))(path \<mapsto> text)\<rparr>,
       writes := writes r @ [File_write path text]\<rparr>"

definition time_sleep :: "env \<Rightarrow> sleep_site \<Rightarrow> thread_state \<Rightarrow> string option \<times> thread_state" where
  "time_sleep env site r = (sleep_raises env site, r\<lparr>shared := during_sleep env site (shared r)\<rparr>)"

datatype exit = Fell_through | Returned | Raised string
  \<comment> \<open>how control leaves a block: at its end, by \<open>return\<close>, or by an exception\<close>

fun progress_loop ::
  "env \<Rightarrow> string \<Rightarrow> (int \<Rightarrow> sleep_site) \<Rightarrow> string \<Rightarrow> int list \<Rightarrow> thread_state \<Rightarrow> exit \<times> thread_state"
where
  "progress_loop env filepath site label [] r = (Fell_through, r)"
| "progress_loop env filepath site label (i # rest) r =
     (if current_job (shared r) \<noteq> Some filepath then (Returned, r)
      else case time_sleep env (site i) r of
        (Some e, r1) \<Rightarrow> (Raised e, r1)
      | (None, r1) \<Rightarrow>
          progress_loop env filepath site label rest
            (update_job_status
               [(''progress'', PInt i), (''message'', PStr (label @ py_str i @ ''%''))] r1))"

definition final_processing :: "env \<Rightarrow> string \<Rightarrow> thread_state \<Rightarrow> exit \<times> thread_state" where
  \<comment> \<open>from \<open># Simulate final processing\<close> to the end of the \<open>try\<close> block\<close>
  "final_processing env fname r =
     (case time_sleep env Final_sleep r of
        (Some e, r1) \<Rightarrow> (Raised e, r1)
      | (None, r1) \<Rightarrow>
          let output_filename = fst (os_path_splitext fname) @ ''_audiobook.m4b'';
              output_path = os_path_join OUTPUT_FOLDER output_filename
          in case open_raises env output_path of
            Some e \<Rightarrow> (Raised e, r1)
          | None \<Rightarrow>
              (Fell_through,
               update_job_status
                 [(''status'', PStr ''completed''), (''progress'', PInt 100),
                  (''message'', PStr (''Audiobook generated successfully: '' @ output_filename)),
                  (''output_file'', PStr output_filename)]
                 (write_file output_path ''This would be the generated audiobook file'' r1)))"

definition try_block :: "env \<Rightarrow> string \<Rightarrow> string \<Rightarrow> thread_state \<Rightarrow> exit \<times> thread_state" where
  "try_block env filepath fname r =
     (case progress_loop env filepath Text_sleep ''Processing book text... '' (py_range 10 50 5) r of
        (Fell_through, r1) \<Rightarrow>
          (case progress_loop env filepath Audio_sleep ''Generating audio... '' (py_range 50 90 5) r1 of
             (Fell_through, r2) \<Rightarrow> final_processing env fname r2
           | other \<Rightarrow> other)
      | other \<Rightarrow> other)"

datatype ending = Unavailable | Succeeded | Superseded | Failed string
  \<comment> \<open>how a call of \<open>process_book_job\<close> ended: at the first \<open>return\<close>; at the end of the
      \<open>try\<close> block; at a \<open>return\<close> in a loop; in the \<open>except\<close> clause\<close>

record outcome =
  how :: ending
  final :: thread_state

definition process_book_job :: "env \<Rightarrow> string \<Rightarrow> options \<Rightarrow> world \<Rightarrow> outcome" where
  "process_book_job env filepath opts w =
     (let r0 = \<lparr>shared = w, writes = []\<rparr> in
      if \<not> VOXNOVEL_AVAILABLE env then
        \<lparr>how = Unavailable,
         final = update_job_status
           [(''status'', PStr ''error''), (''message'', PStr ''VoxNovel modules not available''),
            (''progress'', PInt 0)] r0\<rparr>
      else
        let r1 = set_current_job (Some filepath) r0;
            fname = os_path_basename filepath;
            r2 = update_job_status
                   [(''status'', PStr ''processing''), (''progress'', PInt 10),
                    (''message'', PStr ''Starting book processing...''),
                    (''start_time'', PStr (now_isoformat env)), (''output_file'', PNone)] r1
        in case try_block env filepath fname r2 of
          (Raised e, r3) \<Rightarrow>
            \<lparr>how = Failed e,
             final = set_current_job None
               (update_job_status
                  [(''status'', PStr ''error''), (''message'', PStr (''Processing failed: '' @ e)),
                   (''progress'', PInt 0)] r3)\<rparr>
        | (Returned, r3) \<Rightarrow> \<lparr>how = Superseded, final = set_current_job None r3\<rparr>
        | (Fell_through, r3) \<Rightarrow> \<lparr>how = Succeeded, final = set_current_job None r3\<rparr>)"

section \<open>Concrete surroundings and requests\<close>

definition quiet_env :: env where
  \<comment> \<open>the collaborator is there, no other thread writes, nothing raises\<close>
  "quiet_env =
     \<lparr>VOXNOVEL_AVAILABLE = True, unicode_decomp = (\<lambda>c. []),
      now_isoformat = ''2024-01-01T00:00:00'',
      during_sleep = (\<lambda>site w. w), sleep_raises = (\<lambda>site. None),
      open_raises = (\<lambda>path. None), save_raises = (\<lambda>path. None)\<rparr>"

definition book_request :: "string \<Rightarrow> string \<Rightarrow> request" where
  \<comment> \<open>a multipart form with the field \<open>file\<close> only\<close>
  "book_request name content =
     \<lparr>files = [''file'' \<mapsto> \<lparr>filename = name, stream = content\<rparr>], form = Map.empty\<rparr>"

section \<open>Notions used in the statements\<close>

definition document_extensions :: "string list" where
  \<comment> \<open>the specification's list: \<open>Allowed upload extensions: epub, pdf, mobi, txt, html, rtf,
      fb2, odt, cbr, cbz\<close>\<close>
  "document_extensions =
     [''epub'', ''pdf'', ''mobi'', ''txt'', ''html'', ''rtf'', ''fb2'', ''odt'', ''cbr'', ''cbz'']"

definition same_ignoring_case :: "char \<Rightarrow> char \<Rightarrow> bool" where
  \<comment> \<open>the same character, or the capital and the small form of one of the letters A to Z\<close>
  "same_ignoring_case x y =
     (x = y
      \<or> (65 \<le> (of_char x :: nat) \<and> (of_char x :: nat) \<le> 90 \<and> (of_char y :: nat) = of_char x + 32)
      \<or> (65 \<le> (of_char y :: nat) \<and> (of_char y :: nat) \<le> 90 \<and> (of_char x :: nat) = of_char y + 32))"

definition matches_extension :: "string \<Rightarrow> bool" where
  \<comment> \<open>the specification's test of an extension: membership in the list, whatever the
      case of the letters\<close>
  "matches_extension ext =
     list_ex (\<lambda>a. list_all2 same_ignoring_case ext a) document_extensions"

definition lower_or_digit :: "char \<Rightarrow> bool" where
  \<comment> \<open>\<open>[a-z0-9]\<close>\<close>
  "lower_or_digit c =
     ((48 \<le> (of_char c :: nat) \<and> (of_char c :: nat) \<le> 57)
      \<or> (97 \<le> (of_char c :: nat) \<and> (of_char c :: nat) \<le> 122))"

definition well_formed :: "world \<Rightarrow> bool" where
  \<comment> \<open>the token, when set, and the path of every started worker are not the empty string\<close>
  "well_formed w =
     ((case current_job w of None \<Rightarrow> True | Some t \<Rightarrow> t \<noteq> [])
      \<and> list_all (\<lambda>(filepath, opts). filepath \<noteq> []) (threads w))"

definition directly_inside :: "string \<Rightarrow> string \<Rightarrow> bool" where
  \<comment> \<open>\<open>path\<close> is \<open>folder/name\<close> for a name without separator that is not empty, \<open>.\<close> or \<open>..\<close>\<close>
  "directly_inside folder path =
     (let n = length folder + 1; name = drop n path
      in take n path = folder @ ''/'' \<and> name \<noteq> [] \<and> CHR ''/'' \<notin> set name
         \<and> name \<noteq> ''.'' \<and> name \<noteq> ''..'')"

definition progress_written :: "event \<Rightarrow> int list" where
  \<comment> \<open>the value an event writes under the key \<open>progress\<close>, if any\<close>
  "progress_written e =
     (case e of
        Status_write d js \<Rightarrow> (case map_of d ''progress'' of Some (PInt p) \<Rightarrow> [p] | _ \<Rightarrow> [])
      | _ \<Rightarrow> [])"

definition progress_writes :: "event list \<Rightarrow> int list" where
  "progress_writes evs = concat (map progress_written evs)"

definition status_written :: "event \<Rightarrow> string list" where
  \<comment> \<open>the value an event writes under the key \<open>status\<close>, if any\<close>
  "status_written e =
     (case e of
        Status_write d js \<Rightarrow> (case map_of d ''status'' of Some (PStr s) \<Rightarrow> [s] | _ \<Rightarrow> [])
      | _ \<Rightarrow> [])"

definition is_status_write :: "event \<Rightarrow> bool" where
  "is_status_write e = (case e of Status_write d js \<Rightarrow> True | _ \<Rightarrow> False)"

definition is_file_write :: "event \<Rightarrow> bool" where
  "is_file_write e = (case e of File_write path text \<Rightarrow> True | _ \<Rightarrow> False)"

definition output_set :: "py_dict \<Rightarrow> bool" where
  \<comment> \<open>\<open>output_file\<close> holds a value other than \<open>None\<close>\<close>
  "output_set js = (case js ''output_file'' of None \<Rightarrow> False | Some PNone \<Rightarrow> False | Some v \<Rightarrow> True)"

definition output_iff_completed :: "py_dict \<Rightarrow> bool" where
  "output_iff_completed js = (output_set js = (js ''status'' = Some (PStr ''completed'')))"

definition progress_event :: "int \<Rightarrow> event \<Rightarrow> bool" where
  \<comment> \<open>an update of \<open>progress\<close> to \<open>i\<close> and of \<open>message\<close>, and of nothing else\<close>
  "progress_event i e =
     (\<exists>m js. e = Status_write [(''progress'', PInt i), (''message'', PStr m)] js)"

definition loop_steps :: "int list" where
  \<comment> \<open>the values of \<open>i\<close> in the two loops, in order\<close>
  "loop_steps = py_range 10 50 5 @ py_range 50 90 5"

definition output_name :: "string \<Rightarrow> string" where
  \<comment> \<open>\<open>output_filename\<close> as \<open>process_book_job\<close> computes it from \<open>filepath\<close>\<close>
  "output_name filepath = fst (os_path_splitext (os_path_basename filepath)) @ ''_audiobook.m4b''"

definition completed_update :: "string \<Rightarrow> (string \<times> pyval) list" where
  \<comment> \<open>the dictionary of the last \<open>update\<close> in the \<open>try\<close> block\<close>
  "completed_update name =
     [(''status'', PStr ''completed''), (''progress'', PInt 100),
      (''message'', PStr (''Audiobook generated successfully: '' @ name)),
      (''output_file'', PStr name)]"

definition processing_update :: "env \<Rightarrow> (string \<times> pyval) list" where
  \<comment> \<open>the dictionary of the \<open>update\<close> before the \<open>try\<close> block\<close>
  "processing_update env =
     [(''status'', PStr ''processing''), (''progress'', PInt 10),
      (''message'', PStr ''Starting book processing...''),
      (''start_time'', PStr (now_isoformat env)), (''output_file'', PNone)]"

definition failed_update :: "string \<Rightarrow> (string \<times> pyval) list" where
  \<comment> \<open>the dictionary of the \<open>update\<close> in the \<open>except\<close> clause\<close>
  "failed_update e =
     [(''status'', PStr ''error''), (''message'', PStr (''Processing failed: '' @ e)),
      (''progress'', PInt 0)]"

definition unavailable_update :: "(string \<times> pyval) list" where
  \<comment> \<open>the dictionary of the \<open>update\<close> when \<open>VOXNOVEL_AVAILABLE\<close> is false\<close>
  "unavailable_update =
     [(''status'', PStr ''error''), (''message'', PStr ''VoxNovel modules not available''),
      (''progress'', PInt 0)]"

definition output_text :: string where
  "output_text = ''This would be the generated audiobook file''"


definition job_inv :: "env \<Rightarrow> py_dict \<Rightarrow> bool" where
  \<comment> \<open>\<open>output_file\<close> is set exactly when the status is \<open>completed\<close>; and it is not set
      when the collaborator is missing\<close>
  "job_inv env js = (output_iff_completed js \<and> (VOXNOVEL_AVAILABLE env \<or> \<not> output_set js))"

definition write_ok :: "env \<Rightarrow> event \<Rightarrow> bool" where
  \<comment> \<open>a write to \<open>job_status\<close> leaves a dictionary that satisfies \<open>job_inv\<close>, with
      \<open>output_file\<close> not set unless the status written is \<open>completed\<close>\<close>
  "write_ok env e =
     (case e of
        Status_write d js \<Rightarrow>
          job_inv env js
          \<and> (case map_of d ''status'' of
                Some (PStr s) \<Rightarrow> s = ''completed'' \<or> \<not> output_set js
              | _ \<Rightarrow> True)
      | _ \<Rightarrow> True)"


definition early_change_env :: env where
  \<comment> \<open>as \<open>quiet_env\<close>, but during the first sleep another thread stores its own path in
      \<open>current_job\<close>\<close>
  "early_change_env =
     quiet_env\<lparr>during_sleep :=
       (\<lambda>site w. if site = Text_sleep 10 then w\<lparr>current_job := Some ''/app/uploads/other.pdf''\<rparr>
                   else w)\<rparr>"

definition default_options :: options where
  \<comment> \<open>the options of a request whose form has no field\<close>
  "default_options =
     \<lparr>tts_model = ''xtts_v2'', use_gpu = True, chapter_delimiter = ''Chapter'',
      silence_duration = 500\<rparr>"


definition failing_env :: "string \<Rightarrow> env" where
  \<comment> \<open>as \<open>quiet_env\<close>, but opening the output file raises\<close>
  "failing_env msg = quiet_env\<lparr>open_raises := (\<lambda>path. Some msg)\<rparr>"


definition missing_env :: env where
  \<comment> \<open>as \<open>quiet_env\<close>, but the import of the collaborator failed\<close>
  "missing_env = quiet_env\<lparr>VOXNOVEL_AVAILABLE := False\<rparr>"

definition first_job_done :: world where
  \<comment> \<open>\<open>book.epub\<close> has been uploaded and its job has run to the end\<close>
  "first_job_done =
     shared (final (process_book_job quiet_env ''/app/uploads/book.epub'' default_options
       (snd (upload_file quiet_env (book_request ''book.epub'' ''first text'') initial_world))))"

section \<open>The extension test: proofs\<close>

lemma split_at_last:
  assumes "c \<in> set s"
  shows "s = before_last c s @ c # after_last c s"
proof -
  let ?p = "\<lambda>x. x \<noteq> c"
  have ne: "dropWhile ?p (rev s) \<noteq> []"
    using assms by (simp add: dropWhile_eq_Nil_conv)
  then have hd: "hd (dropWhile ?p (rev s)) = c"
    using hd_dropWhile [of ?p "rev s"] by simp
  have "rev s = takeWhile ?p (rev s) @ dropWhile ?p (rev s)" by simp
  also have "dropWhile ?p (rev s) = c # tl (dropWhile ?p (rev s))"
    using ne hd by (cases "dropWhile ?p (rev s)") simp_all
  finally have "rev s = takeWhile ?p (rev s) @ c # tl (dropWhile ?p (rev s))" .
  then have "rev (rev s) = rev (takeWhile ?p (rev s) @ c # tl (dropWhile ?p (rev s)))"
    by simp
  then show ?thesis by (simp add: before_last_def after_last_def)
qed

lemma after_last_free: "c \<notin> set (after_last c s)"
proof -
  have "\<forall>x \<in> set (takeWhile (\<lambda>x. x \<noteq> c) (rev s)). x \<noteq> c"
    using set_takeWhileD by fastforce
  then show ?thesis by (auto simp: after_last_def)
qed

lemma after_last_append: "c \<notin> set e \<Longrightarrow> after_last c (p @ c # e) = e"
  by (simp add: after_last_def takeWhile_append1 [where x = c] takeWhile_eq_all_conv [THEN iffD2]
      takeWhile_append)

lemma of_char_py_lower_char:
  "(of_char (py_lower_char c) :: nat) =
     (if 65 \<le> (of_char c :: nat) \<and> (of_char c :: nat) \<le> 90 then of_char c + 32
      else if 192 \<le> (of_char c :: nat) \<and> (of_char c :: nat) \<le> 222 \<and> (of_char c :: nat) \<noteq> 215
        then of_char c + 32
      else of_char c)"
  by (simp add: py_lower_char_def Let_def)

lemma py_lower_char_dot: "(py_lower_char c = CHR ''.'') = (c = CHR ''.'')"
proof -
  have "(of_char (py_lower_char c) = (46::nat)) = (of_char c = (46::nat))"
    by (simp add: of_char_py_lower_char)
  moreover have "(of_char (CHR ''.'') :: nat) = 46" by simp
  ultimately have "(of_char (py_lower_char c) = (of_char (CHR ''.'') :: nat))
      = (of_char c = (of_char (CHR ''.'') :: nat))" by simp
  then show ?thesis by (simp only: of_char_eq_iff)
qed

lemma py_lower_char_idem: "py_lower_char (py_lower_char c) = py_lower_char c"
proof -
  have "(of_char (py_lower_char (py_lower_char c)) :: nat) = of_char (py_lower_char c)"
    by (simp add: of_char_py_lower_char)
  then show ?thesis by (simp only: of_char_eq_iff)
qed

lemma after_last_lower: "after_last CHR ''.'' (py_lower s) = py_lower (after_last CHR ''.'' s)"
proof -
  have "(\<lambda>x. x \<noteq> CHR ''.'') \<circ> py_lower_char = (\<lambda>x. x \<noteq> CHR ''.'')"
    by (auto simp: fun_eq_iff py_lower_char_dot)
  then show ?thesis
    by (simp add: after_last_def py_lower_def rev_map takeWhile_map)
qed

lemma allowed_file_split:
  "allowed_file name = Inr (CHR ''.'' \<in> set name \<and> py_lower (after_last CHR ''.'' name) \<in> ALLOWED_EXTENSIONS)"
  by (simp add: allowed_file_def py_index_def py_rsplit1_def)

lemma allowed_file_last_dot:
  "allowed_file name =
     Inr (\<exists>pre ext. name = pre @ CHR ''.'' # ext \<and> CHR ''.'' \<notin> set ext
            \<and> py_lower ext \<in> ALLOWED_EXTENSIONS)"
proof (cases "CHR ''.'' \<in> set name")
  case True
  have "py_lower (after_last CHR ''.'' name) \<in> ALLOWED_EXTENSIONS \<longleftrightarrow>
    (\<exists>pre ext. name = pre @ CHR ''.'' # ext \<and> CHR ''.'' \<notin> set ext
          \<and> py_lower ext \<in> ALLOWED_EXTENSIONS)" (is "?l \<longleftrightarrow> ?r")
  proof
    assume ?l
    with split_at_last [OF True] after_last_free [of "CHR ''.''" name] show ?r by blast
  next
    assume ?r
    then obtain pre ext where "name = pre @ CHR ''.'' # ext" "CHR ''.'' \<notin> set ext"
      "py_lower ext \<in> ALLOWED_EXTENSIONS" by blast
    then show ?l by (simp add: after_last_append)
  qed
  with True show ?thesis by (simp add: allowed_file_split)
next
  case False
  then have "\<not> (\<exists>pre ext. name = pre @ CHR ''.'' # ext \<and> CHR ''.'' \<notin> set ext
          \<and> py_lower ext \<in> ALLOWED_EXTENSIONS)" by auto
  with False show ?thesis by (simp add: allowed_file_split)
qed

lemma allowed_file_lower_name: "allowed_file (py_lower name) = allowed_file name"
proof -
  have "(CHR ''.'' \<in> set (py_lower name)) = (\<exists>x \<in> set name. py_lower_char x = CHR ''.'')"
  proof -
    have "(z \<in> f ` S) = (\<exists>x\<in>S. f x = z)" for z :: char and f S by auto
    then show ?thesis unfolding py_lower_def by (simp only: set_map)
  qed
  then have "(CHR ''.'' \<in> set (py_lower name)) = (CHR ''.'' \<in> set name)"
    by (simp add: py_lower_char_dot)
  moreover have "py_lower (py_lower s) = py_lower s" for s
    by (simp add: py_lower_def py_lower_char_idem)
  ultimately show ?thesis
    by (simp add: allowed_file_split after_last_lower)
qed

subsection \<open>The specification's case-insensitive test and the code's lower-casing\<close>

lemma document_extensions_set: "set document_extensions = ALLOWED_EXTENSIONS"
  by (simp add: document_extensions_def ALLOWED_EXTENSIONS_def)

lemma document_extensions_chars:
  "a \<in> ALLOWED_EXTENSIONS \<Longrightarrow> y \<in> set a \<Longrightarrow> lower_or_digit y"
  by (auto simp: ALLOWED_EXTENSIONS_def lower_or_digit_def)

lemma same_ignoring_case_lower:
  assumes "same_ignoring_case x y" and "lower_or_digit y"
  shows "py_lower_char x = y"
proof -
  have "(of_char (py_lower_char x) :: nat) = of_char y"
    using assms
    by (auto simp: same_ignoring_case_def lower_or_digit_def of_char_py_lower_char)
  then show ?thesis by (simp only: of_char_eq_iff)
qed

lemma lower_same_ignoring_case:
  assumes "lower_or_digit (py_lower_char x)"
  shows "same_ignoring_case x (py_lower_char x)"
proof -
  let ?n = "of_char x :: nat"
  consider "65 \<le> ?n \<and> ?n \<le> 90" | "192 \<le> ?n \<and> ?n \<le> 222 \<and> ?n \<noteq> 215"
    | "\<not> (65 \<le> ?n \<and> ?n \<le> 90) \<and> \<not> (192 \<le> ?n \<and> ?n \<le> 222 \<and> ?n \<noteq> 215)" by blast
  then show ?thesis
  proof cases
    case 1
    then have "(of_char (py_lower_char x) :: nat) = ?n + 32" by (simp add: of_char_py_lower_char)
    with 1 show ?thesis by (simp add: same_ignoring_case_def)
  next
    case 2
    then have "(of_char (py_lower_char x) :: nat) = ?n + 32" by (simp add: of_char_py_lower_char)
    with 2 assms show ?thesis by (simp add: lower_or_digit_def)
  next
    case 3
    then have "(of_char (py_lower_char x) :: nat) = ?n" by (simp add: of_char_py_lower_char)
    then have "py_lower_char x = x" by (simp only: of_char_eq_iff)
    then show ?thesis by (simp add: same_ignoring_case_def)
  qed
qed

lemma matches_extension_lower: "matches_extension ext = (py_lower ext \<in> ALLOWED_EXTENSIONS)"
proof
  assume "matches_extension ext"
  then obtain a where a: "a \<in> ALLOWED_EXTENSIONS" and m: "list_all2 same_ignoring_case ext a"
    by (auto simp: matches_extension_def list_ex_iff document_extensions_set)
  from m have len: "length ext = length a"
    and nth: "\<And>i. i < length ext \<Longrightarrow> same_ignoring_case (ext ! i) (a ! i)"
    by (simp_all add: list_all2_conv_all_nth)
  have "py_lower ext = a"
  proof (rule nth_equalityI)
    show "length (py_lower ext) = length a" using len by (simp add: py_lower_def)
    fix i assume "i < length (py_lower ext)"
    then have i: "i < length ext" by (simp add: py_lower_def)
    with len have "a ! i \<in> set a" by simp
    with a have "lower_or_digit (a ! i)" by (rule document_extensions_chars)
    with nth [OF i] have "py_lower_char (ext ! i) = a ! i" by (rule same_ignoring_case_lower)
    with i show "py_lower ext ! i = a ! i" by (simp add: py_lower_def)
  qed
  with a show "py_lower ext \<in> ALLOWED_EXTENSIONS" by simp
next
  assume a: "py_lower ext \<in> ALLOWED_EXTENSIONS"
  have "list_all2 same_ignoring_case ext (py_lower ext)"
    unfolding list_all2_conv_all_nth
  proof (intro conjI allI impI)
    show "length ext = length (py_lower ext)" by (simp add: py_lower_def)
    fix i assume i: "i < length ext"
    then have "py_lower ext ! i \<in> set (py_lower ext)" by (simp add: py_lower_def)
    with a have "lower_or_digit (py_lower ext ! i)" by (rule document_extensions_chars)
    with i have "lower_or_digit (py_lower_char (ext ! i))" by (simp add: py_lower_def)
    then have "same_ignoring_case (ext ! i) (py_lower_char (ext ! i))"
      by (rule lower_same_ignoring_case)
    with i show "same_ignoring_case (ext ! i) (py_lower ext ! i)" by (simp add: py_lower_def)
  qed
  with a show "matches_extension ext"
    by (auto simp: matches_extension_def list_ex_iff document_extensions_set)
qed

text \<open>
  Claim C7. For every string \<open>name\<close>, \<open>allowed_file name\<close> raises nothing and returns
  \<open>True\<close> exactly when \<open>name\<close> has a dot and the text after its last dot, compared without
  regard to the case of its letters, is one of epub, pdf, mobi, txt, html, rtf, fb2, odt,
  cbr, cbz. The comparison of the statement, \<open>matches_extension\<close>, is written on the
  specification's list with \<open>same_ignoring_case\<close> and does not use the code's \<open>lower\<close>;
  the second conjunct gives the same fact in the code's terms (the lower-case form of
  the text after the last dot is in \<open>ALLOWED_EXTENSIONS\<close>), and the third says that the
  name in lower case gets the same answer. The remaining conjuncts fix the answer on
  concrete names: \<open>BOOK.EPUB\<close>, \<open>Novel.Pdf\<close>, \<open>notes.tXt\<close> and \<open>comic.CBZ\<close> are accepted as
  \<open>book.epub\<close> is, while \<open>book.exe\<close>, a name without a dot, \<open>book.epub.zip\<close> (only the
  last dot counts) and a name ending in a dot are refused.
\<close>

theorem allowed_file_iff:
  "allowed_file name =
     Inr (\<exists>pre ext. name = pre @ CHR ''.'' # ext \<and> CHR ''.'' \<notin> set ext \<and> matches_extension ext)
   \<and> allowed_file name =
     Inr (\<exists>pre ext. name = pre @ CHR ''.'' # ext \<and> CHR ''.'' \<notin> set ext
            \<and> py_lower ext \<in> ALLOWED_EXTENSIONS)
   \<and> allowed_file (py_lower name) = allowed_file name
   \<and> allowed_file ''BOOK.EPUB'' = Inr True
   \<and> allowed_file ''Novel.Pdf'' = Inr True
   \<and> allowed_file ''notes.tXt'' = Inr True
   \<and> allowed_file ''comic.CBZ'' = Inr True
   \<and> allowed_file ''book.epub'' = Inr True
   \<and> allowed_file ''book.exe'' = Inr False
   \<and> allowed_file ''epub'' = Inr False
   \<and> allowed_file ''book.epub.zip'' = Inr False
   \<and> allowed_file ''book.'' = Inr False"
proof -
  have 1: "allowed_file name =
     Inr (\<exists>pre ext. name = pre @ CHR ''.'' # ext \<and> CHR ''.'' \<notin> set ext
            \<and> py_lower ext \<in> ALLOWED_EXTENSIONS)"
    by (rule allowed_file_last_dot)
  have 2: "allowed_file (py_lower name) = allowed_file name"
    by (rule allowed_file_lower_name)
  have 3: "allowed_file ''BOOK.EPUB'' = Inr True" by code_simp
  have 4: "allowed_file ''Novel.Pdf'' = Inr True" by code_simp
  have 5: "allowed_file ''notes.tXt'' = Inr True" by code_simp
  have 6: "allowed_file ''comic.CBZ'' = Inr True" by code_simp
  have 7: "allowed_file ''book.epub'' = Inr True" by code_simp
  have 8: "allowed_file ''book.exe'' = Inr False" by code_simp
  have 9: "allowed_file ''epub'' = Inr False" by code_simp
  have 10: "allowed_file ''book.epub.zip'' = Inr False" by code_simp
  have 11: "allowed_file ''book.'' = Inr False" by code_simp
  from 1 have 0: "allowed_file name =
     Inr (\<exists>pre ext. name = pre @ CHR ''.'' # ext \<and> CHR ''.'' \<notin> set ext \<and> matches_extension ext)"
    by (simp add: matches_extension_lower)
  from 0 1 2 3 4 5 6 7 8 9 10 11 show ?thesis by (simp only: simp_thms)
qed

section \<open>The upload handler: proofs\<close>

lemma os_path_join_nonempty: "a \<noteq> [] \<Longrightarrow> os_path_join a b \<noteq> []"
  by (simp add: os_path_join_def)

lemma well_formed_initial: "well_formed initial_world"
  by (simp add: well_formed_def initial_world_def)

lemma upload_file_well_formed:
  assumes "well_formed w"
  shows "well_formed (snd (upload_file env req w))"
proof -
  have "os_path_join UPLOAD_FOLDER b \<noteq> []" for b
    by (rule os_path_join_nonempty) (simp add: UPLOAD_FOLDER_def)
  with assms show ?thesis
    by (auto simp: upload_file_def well_formed_def Let_def
        split: option.splits sum.splits bool.splits)
qed

text \<open>
  Claim C1. An upload that arrives while the token \<open>current_job\<close> is set is answered with
  status 400 and the error \<open>Another job is already running\<close>, and the shared state that
  the handler returns is the one it was given: \<open>job_status\<close> and \<open>current_job\<close> are as
  before, no file is saved and no worker is started. The handler tests the token's truth
  value, so the statement is about the states of the program, in which a token that is set
  is a path and not the empty string (\<open>well_formed\<close>, which holds at the start and which the
  handler and the worker keep: \<open>upload_file_well_formed\<close>, \<open>process_book_job_well_formed\<close>).
\<close>

theorem upload_rejected_while_running:
  assumes "well_formed w" and "current_job w \<noteq> None"
  shows "upload_file env req w =
           (Inr (jsonify [(''error'', ''Another job is already running'')] 400), w)"
proof -
  from assms have "py_truthy (current_job w)"
    by (auto simp: well_formed_def py_truthy_def split: option.splits)
  then show ?thesis by (simp add: upload_file_def)
qed

theorem upload_rejected_while_running_witness:
  "well_formed (initial_world\<lparr>current_job := Some ''/app/uploads/book.epub''\<rparr>)
   \<and> current_job (initial_world\<lparr>current_job := Some ''/app/uploads/book.epub''\<rparr>) \<noteq> None
   \<and> upload_file quiet_env (book_request ''other.pdf'' ''text'')
        (initial_world\<lparr>current_job := Some ''/app/uploads/book.epub''\<rparr>) =
      (Inr \<lparr>body = [(''error'', ''Another job is already running'')], code = 400\<rparr>,
       initial_world\<lparr>current_job := Some ''/app/uploads/book.epub''\<rparr>)"
proof -
  have wf: "well_formed (initial_world\<lparr>current_job := Some ''/app/uploads/book.epub''\<rparr>)"
    by (simp add: well_formed_def initial_world_def)
  have tok: "current_job (initial_world\<lparr>current_job := Some ''/app/uploads/book.epub''\<rparr>) \<noteq> None"
    by simp
  show ?thesis
    using wf tok upload_rejected_while_running [OF wf tok, of quiet_env "book_request ''other.pdf'' ''text''"]
    by (simp add: jsonify_def)
qed

subsection \<open>\<open>int\<close> on the form field\<close>

lemma py_int_examples:
  "py_int ''500'' = Inr 500"
  "py_int '' -1_000 '' = Inr (- 1000)"
  "py_int ''+07'' = Inr 7"
  "py_int [char_of (160::nat), CHR ''5'', char_of (133::nat)] = Inr 5"
  "py_int [char_of (28::nat), CHR ''5''] = Inl ValueError"
  "py_int [CHR ''5'', char_of (31::nat)] = Inl ValueError"
  "py_int ''half a second'' = Inl ValueError"
  "py_int '''' = Inl ValueError"
  "py_int ''1__0'' = Inl ValueError"
  "py_int ''0.5'' = Inl ValueError"
  by code_simp+

lemma dropWhile_digits:
  assumes "\<forall>c \<in> set s. is_digit c"
  shows "dropWhile c_isspace s = s"
proof (cases s)
  case Nil
  then show ?thesis by simp
next
  case (Cons a t)
  with assms have "is_digit a" by simp
  then have "\<not> c_isspace a" by (auto simp: is_digit_def c_isspace_def)
  with Cons show ?thesis by simp
qed

lemma py_int_digit_limit:
  assumes "\<forall>c \<in> set s. is_digit c" and "int_max_str_digits < length s"
  shows "py_int s = Inl ValueError"
proof -
  have 1: "map space_to_ascii s = s"
  proof (rule map_idI)
    fix c assume "c \<in> set s"
    with assms(1) have "is_digit c" by simp
    then show "space_to_ascii c = c" by (auto simp: is_digit_def space_to_ascii_def)
  qed
  have r: "\<forall>c \<in> set (rev s). is_digit c" using assms(1) by simp
  have 2: "py_strip c_isspace s = s"
    by (simp add: py_strip_def dropWhile_digits [OF assms(1)] dropWhile_digits [OF r])
  have ne: "s \<noteq> []" using assms(2) by auto
  then have "is_digit (hd s)" using assms(1) by simp
  then have 3: "hd s \<noteq> CHR ''-''" "hd s \<noteq> CHR ''+''" by (auto simp: is_digit_def)
  have 4: "filter (\<lambda>c. c \<noteq> CHR ''_'') s = s"
  proof -
    have "\<forall>c \<in> set s. c \<noteq> CHR ''_''" using assms(1) by (auto simp: is_digit_def)
    then show ?thesis by (simp only: filter_id_conv)
  qed
  show ?thesis using assms(2) by (simp add: py_int_def 1 2 3 4 Let_def)
qed

text \<open>
  Claim C10, as amended. When the upload is valid otherwise (no job is running and the
  request holds a file with an allowed extension that \<open>file.save\<close> stores), a form field
  \<open>silence_duration\<close> that \<open>int\<close> rejects makes the handler raise \<open>ValueError\<close> instead of
  returning a response. The state it leaves is the one it was given with the upload
  written to the disk: the file has been saved, and no worker has been started. What
  \<open>int\<close> accepts is an optional sign and decimal digits, single underscores allowed
  between digits, at most 4300 digits, with whitespace around (tab to carriage return,
  space, U+0085, U+00A0); it rejects everything else (\<open>py_int_examples\<close>,
  \<open>py_int_digit_limit\<close>).
\<close>

theorem bad_silence_duration_raises:
  assumes "\<not> py_truthy (current_job w)"
    and "files req ''file'' = Some file"
    and "filename file \<noteq> []"
    and "allowed_file (filename file) = Inr True"
    and "save_raises env (os_path_join UPLOAD_FOLDER (secure_filename (unicode_decomp env) (filename file))) = None"
    and "form req ''silence_duration'' = Some v"
    and "py_int v = Inl ValueError"
  shows "upload_file env req w =
           (Inl ValueError,
            w\<lparr>disk := (disk w)(os_path_join UPLOAD_FOLDER
                 (secure_filename (unicode_decomp env) (filename file)) \<mapsto> stream file)\<rparr>)"
  using assms by (simp add: upload_file_def get_options_def Let_def)

theorem bad_silence_duration_raises_witness:
  "upload_file quiet_env
     ((book_request ''book.epub'' ''text'')\<lparr>form := [''silence_duration'' \<mapsto> ''half a second'']\<rparr>)
     initial_world =
   (Inl ValueError, initial_world\<lparr>disk := [''/app/uploads/book.epub'' \<mapsto> ''text'']\<rparr>)"
proof -
  let ?req = "(book_request ''book.epub'' ''text'')\<lparr>form := [''silence_duration'' \<mapsto> ''half a second'']\<rparr>"
  let ?file = "\<lparr>filename = ''book.epub'', stream = ''text''\<rparr>"
  have 1: "\<not> py_truthy (current_job initial_world)"
    by (simp add: py_truthy_def initial_world_def)
  have 2: "files ?req ''file'' = Some ?file" by (simp add: book_request_def)
  have 3: "filename ?file \<noteq> []" by simp
  have 4: "allowed_file (filename ?file) = Inr True" by code_simp
  have 5: "save_raises quiet_env (os_path_join UPLOAD_FOLDER
             (secure_filename (unicode_decomp quiet_env) (filename ?file))) = None"
    by (simp add: quiet_env_def)
  have 6: "form ?req ''silence_duration'' = Some ''half a second''" by simp
  have 7: "py_int ''half a second'' = Inl ValueError" by code_simp
  have p: "os_path_join UPLOAD_FOLDER (secure_filename (unicode_decomp quiet_env) ''book.epub'')
           = ''/app/uploads/book.epub''" by code_simp
  show ?thesis
    using bad_silence_duration_raises [OF 1 2 3 4 5 6 7]
    by (simp add: p initial_world_def)
qed

text \<open>
  Claim C10 as stated fails for a request that the handler turns down before it reads the
  options: with the same field and a file named \<open>book.exe\<close>, the answer is the response
  400 \<open>File type not allowed\<close>, no exception is raised and nothing is saved.
\<close>

theorem bad_silence_duration_counterexample:
  "form ((book_request ''book.exe'' ''text'')\<lparr>form := [''silence_duration'' \<mapsto> ''half a second'']\<rparr>)
      ''silence_duration'' = Some ''half a second''
   \<and> py_int ''half a second'' = Inl ValueError
   \<and> upload_file quiet_env
        ((book_request ''book.exe'' ''text'')\<lparr>form := [''silence_duration'' \<mapsto> ''half a second'']\<rparr>)
        initial_world
      = (Inr \<lparr>body = [(''error'', ''File type not allowed'')], code = 400\<rparr>, initial_world)"
proof -
  have 1: "py_int ''half a second'' = Inl ValueError" by code_simp
  have 2: "allowed_file ''book.exe'' = Inr False" by code_simp
  show ?thesis
    by (simp add: 1 2 upload_file_def book_request_def py_truthy_def initial_world_def jsonify_def)
qed

section \<open>The stored name: lemmas\<close>

lemma dropWhile_keeps: "x \<in> set xs \<Longrightarrow> \<not> P x \<Longrightarrow> x \<in> set (dropWhile P xs)"
  by (induction xs) auto

lemma py_strip_keeps: "x \<in> set xs \<Longrightarrow> \<not> P x \<Longrightarrow> x \<in> set (py_strip P xs)"
  by (simp add: py_strip_def dropWhile_keeps)

lemma py_strip_subset: "set (py_strip P xs) \<subseteq> set xs"
proof -
  have "set (dropWhile P ys) \<subseteq> set ys" for ys :: string
    by (auto dest: set_dropWhileD)
  then have "set (dropWhile P (rev (dropWhile P xs))) \<subseteq> set (dropWhile P xs)"
    by (metis set_rev)
  also have "\<dots> \<subseteq> set xs" by (auto dest: set_dropWhileD)
  finally show ?thesis by (simp add: py_strip_def)
qed

lemma split_words_keeps:
  "x \<in> set cur \<or> (x \<in> set t \<and> \<not> py_isspace x) \<Longrightarrow> \<exists>w \<in> set (split_words cur t). x \<in> set w"
proof (induction t arbitrary: cur)
  case Nil
  then show ?case by auto
next
  case (Cons c cs)
  show ?case
  proof (cases "py_isspace c")
    case True
    with Cons.prems have "x \<in> set cur \<or> (x \<in> set cs \<and> \<not> py_isspace x)" by auto
    then show ?thesis
    proof
      assume "x \<in> set cur"
      with True show ?thesis by auto
    next
      assume "x \<in> set cs \<and> \<not> py_isspace x"
      then have "\<exists>w \<in> set (split_words [] cs). x \<in> set w" using Cons.IH [of "[]"] by simp
      with True show ?thesis by auto
    qed
  next
    case False
    from Cons.prems have "x \<in> set (c # cur) \<or> (x \<in> set cs \<and> \<not> py_isspace x)" by auto
    then have "\<exists>w \<in> set (split_words (c # cur) cs). x \<in> set w" by (rule Cons.IH)
    with False show ?thesis by simp
  qed
qed

lemma py_join_keeps: "w \<in> set ws \<Longrightarrow> x \<in> set w \<Longrightarrow> x \<in> set (py_join sep ws)"
  by (induction sep ws rule: py_join.induct) auto

lemma ascii_alnum_facts:
  assumes "ascii_alnum c"
  shows "(of_char c :: nat) < 128" and "c \<noteq> CHR ''/''" and "\<not> py_isspace c"
    and "c \<noteq> CHR ''.''" and "c \<noteq> CHR ''_''" and "filename_keep c"
proof -
  let ?n = "of_char c :: nat"
  from assms have r: "(48 \<le> ?n \<and> ?n \<le> 57) \<or> (65 \<le> ?n \<and> ?n \<le> 90) \<or> (97 \<le> ?n \<and> ?n \<le> 122)"
    by (simp add: ascii_alnum_def Let_def)
  then show "?n < 128" by arith
  from r have "?n \<noteq> 47" "?n \<noteq> 46" "?n \<noteq> 95" by arith+
  then show "c \<noteq> CHR ''/''" "c \<noteq> CHR ''.''" "c \<noteq> CHR ''_''" by auto
  from r show "\<not> py_isspace c" by (auto simp: py_isspace_def)
  from assms show "filename_keep c" by (simp add: filename_keep_def)
qed

lemma secure_filename_keeps_alnum:
  assumes "c \<in> set name" and "ascii_alnum c"
  shows "c \<in> set (secure_filename decomp name)"
proof -
  note f = ascii_alnum_facts [OF assms(2)]
  let ?f1 = "nfkd_ascii decomp name"
  let ?f2 = "py_replace_char CHR ''/'' CHR '' '' ?f1"
  have "c \<in> set ?f1" using assms(1) f(1) by (force simp: nfkd_ascii_def)
  then have "c \<in> set ?f2" using f(2) by (force simp: py_replace_char_def)
  then have "\<exists>w \<in> set (py_split ?f2). c \<in> set w"
    unfolding py_split_def using f(3) by (intro split_words_keeps) simp
  then have "c \<in> set (py_join ''_'' (py_split ?f2))" by (auto intro: py_join_keeps)
  then have "c \<in> set (filter filename_keep (py_join ''_'' (py_split ?f2)))"
    using f(6) by simp
  then have "c \<in> set (py_strip (\<lambda>c. c = CHR ''.'' \<or> c = CHR ''_'')
      (filter filename_keep (py_join ''_'' (py_split ?f2))))"
    using f(4,5) by (intro py_strip_keeps) auto
  then show ?thesis by (simp add: secure_filename_def Let_def)
qed

lemma secure_filename_chars: "set (secure_filename decomp name) \<subseteq> {c. filename_keep c}"
proof -
  have "set (secure_filename decomp name) \<subseteq>
    set (filter filename_keep (py_join ''_'' (py_split (py_replace_char CHR ''/'' CHR '' '' (nfkd_ascii decomp name)))))"
    unfolding secure_filename_def Let_def by (rule py_strip_subset)
  then show ?thesis by auto
qed

lemma secure_filename_no_slash: "CHR ''/'' \<notin> set (secure_filename decomp name)"
proof
  assume "CHR ''/'' \<in> set (secure_filename decomp name)"
  then have "filename_keep CHR ''/''" using secure_filename_chars by blast
  then show False by (simp add: filename_keep_def ascii_alnum_def)
qed


lemma after_last_subset: "set (after_last c s) \<subseteq> set s"
  by (auto simp: after_last_def dest: set_takeWhileD)

lemma ascii_alnum_py_lower_char: "ascii_alnum (py_lower_char c) \<Longrightarrow> ascii_alnum c"
  unfolding ascii_alnum_def Let_def of_char_py_lower_char by (simp split: if_splits)

lemma allowed_extension_head: "e \<in> ALLOWED_EXTENSIONS \<Longrightarrow> e \<noteq> [] \<and> ascii_alnum (hd e)"
  by (auto simp: ALLOWED_EXTENSIONS_def ascii_alnum_def)

lemma allowed_file_has_alnum:
  assumes "allowed_file name = Inr True"
  shows "\<exists>c \<in> set name. ascii_alnum c"
proof -
  let ?e = "after_last CHR ''.'' name"
  from assms have "py_lower ?e \<in> ALLOWED_EXTENSIONS" by (simp add: allowed_file_split)
  then have ne: "py_lower ?e \<noteq> []" and al: "ascii_alnum (hd (py_lower ?e))"
    using allowed_extension_head by blast+
  from ne have e: "?e \<noteq> []" by (simp add: py_lower_def)
  then have "hd (py_lower ?e) = py_lower_char (hd ?e)" by (simp add: py_lower_def hd_map)
  with al have "ascii_alnum (hd ?e)" by (simp add: ascii_alnum_py_lower_char)
  moreover from e have "hd ?e \<in> set name" using after_last_subset [of "CHR ''.''" name] by auto
  ultimately show ?thesis by blast
qed

lemma directly_inside_join:
  assumes "name \<noteq> []" and "CHR ''/'' \<notin> set name" and "name \<noteq> ''.''" and "name \<noteq> ''..''"
    and "folder \<noteq> []" and "last folder \<noteq> CHR ''/''"
  shows "os_path_join folder name = folder @ ''/'' @ name"
    and "directly_inside folder (os_path_join folder name)"
proof -
  from assms(1,2) have "hd name \<noteq> CHR ''/''" by (cases name) auto
  with assms(5,6) show j: "os_path_join folder name = folder @ ''/'' @ name"
    by (simp add: os_path_join_def)
  show "directly_inside folder (os_path_join folder name)"
    unfolding j directly_inside_def Let_def using assms(1-4) by simp
qed

lemma secure_filename_inside:
  assumes "allowed_file name = Inr True"
  shows "directly_inside UPLOAD_FOLDER (os_path_join UPLOAD_FOLDER (secure_filename decomp name))"
proof -
  let ?n = "secure_filename decomp name"
  from allowed_file_has_alnum [OF assms] obtain c where c: "c \<in> set name" "ascii_alnum c" by blast
  then have in_n: "c \<in> set ?n" by (rule secure_filename_keeps_alnum)
  have dot: "c \<noteq> CHR ''.''" using ascii_alnum_facts(4) [OF c(2)] .
  from in_n have "?n \<noteq> []" by auto
  moreover have "CHR ''/'' \<notin> set ?n" by (rule secure_filename_no_slash)
  moreover from in_n dot have "?n \<noteq> ''.''" "?n \<noteq> ''..''" by auto
  moreover have "UPLOAD_FOLDER \<noteq> []" "last UPLOAD_FOLDER \<noteq> CHR ''/''"
    by (simp_all add: UPLOAD_FOLDER_def)
  ultimately show ?thesis by (rule directly_inside_join(2))
qed

section \<open>The worker: lemmas\<close>

lemma shared_simps [simp]:
  "shared (set_current_job v r) = (shared r)\<lparr>current_job := v\<rparr>"
  "shared (update_job_status d r) = (shared r)\<lparr>job_status := job_status (shared r) ++ map_of d\<rparr>"
  "shared (write_file p c r) = (shared r)\<lparr>disk := (disk (shared r))(p \<mapsto> c)\<rparr>"
  by (simp_all add: set_current_job_def update_job_status_def write_file_def Let_def)

lemma writes_simps [simp]:
  "writes (set_current_job v r) = writes r @ [Token_write v]"
  "writes (update_job_status d r) = writes r @ [Status_write d (job_status (shared r) ++ map_of d)]"
  "writes (write_file p c r) = writes r @ [File_write p c]"
  by (simp_all add: set_current_job_def update_job_status_def write_file_def Let_def)

lemma time_sleep_simps [simp]:
  "fst (time_sleep env site r) = sleep_raises env site"
  "shared (snd (time_sleep env site r)) = during_sleep env site (shared r)"
  "writes (snd (time_sleep env site r)) = writes r"
  by (simp_all add: time_sleep_def)

lemma progress_loop_writes:
  "progress_loop env fp site label xs r = (ex, r') \<Longrightarrow>
   \<exists>k evs. k \<le> length xs \<and> writes r' = writes r @ evs \<and> list_all2 progress_event (take k xs) evs
     \<and> (ex = Fell_through \<longrightarrow> k = length xs)"
proof (induction xs arbitrary: r)
  case Nil
  then show ?case by auto
next
  case (Cons i rest)
  show ?case
  proof (cases "current_job (shared r) \<noteq> Some fp")
    case True
    with Cons.prems have "ex = Returned" "r' = r" by auto
    then show ?thesis by (intro exI [of _ 0] exI [of _ "[]"]) simp
  next
    case tok: False
    obtain x r1 where ts: "time_sleep env (site i) r = (x, r1)" by (cases "time_sleep env (site i) r")
    then have w1: "writes r1 = writes r" using time_sleep_simps(3) [of env "site i" r] by simp
    show ?thesis
    proof (cases x)
      case (Some e)
      with Cons.prems tok ts have "ex = Raised e" "r' = r1" by auto
      with w1 show ?thesis by (intro exI [of _ 0] exI [of _ "[]"]) simp
    next
      case None
      let ?d = "[(''progress'', PInt i), (''message'', PStr (label @ py_str i @ ''%''))]"
      let ?r2 = "update_job_status ?d r1"
      from Cons.prems tok ts None
      have "progress_loop env fp site label rest ?r2 = (ex, r')" by simp
      from Cons.IH [OF this] obtain k evs where
        k: "k \<le> length rest" and w: "writes r' = writes ?r2 @ evs"
        and a: "list_all2 progress_event (take k rest) evs"
        and f: "ex = Fell_through \<longrightarrow> k = length rest" by blast
      let ?e = "Status_write ?d (job_status (shared r1) ++ map_of ?d)"
      have "progress_event i ?e" unfolding progress_event_def by blast
      with a have "list_all2 progress_event (take (Suc k) (i # rest)) (?e # evs)" by simp
      moreover from w w1 have "writes r' = writes r @ ?e # evs" by simp
      ultimately show ?thesis using k f
        by (intro exI [of _ "Suc k"] exI [of _ "?e # evs"]) simp
    qed
  qed
qed

lemma progress_loop_Returned:
  "progress_loop env fp site label xs r = (Returned, r') \<Longrightarrow> current_job (shared r') \<noteq> Some fp"
proof (induction xs arbitrary: r)
  case Nil
  then show ?case by simp
next
  case (Cons i rest)
  then show ?case
    by (cases "time_sleep env (site i) r") (auto split: if_splits option.splits)
qed

lemma progress_loop_invariant:
  assumes "I r"
    and "\<And>i r. i \<in> set xs \<Longrightarrow> I r \<Longrightarrow> current_job (shared r) = Some fp \<Longrightarrow>
           I (snd (time_sleep env (site i) r))"
    and "\<And>i r. i \<in> set xs \<Longrightarrow> I r \<Longrightarrow>
           I (update_job_status [(''progress'', PInt i), (''message'', PStr (label @ py_str i @ ''%''))] r)"
  shows "I (snd (progress_loop env fp site label xs r))"
  using assms
proof (induction xs arbitrary: r)
  case Nil
  then show ?case by simp
next
  case (Cons i rest)
  show ?case
  proof (cases "current_job (shared r) \<noteq> Some fp")
    case True
    with Cons.prems(1) show ?thesis by simp
  next
    case tok: False
    obtain x r1 where ts: "time_sleep env (site i) r = (x, r1)" by (cases "time_sleep env (site i) r")
    have I1: "I r1" using Cons.prems(2) [of i r] Cons.prems(1) tok ts by simp
    show ?thesis
    proof (cases x)
      case (Some e)
      with tok ts I1 show ?thesis by simp
    next
      case None
      let ?r2 = "update_job_status [(''progress'', PInt i), (''message'', PStr (label @ py_str i @ ''%''))] r1"
      have "I ?r2" using Cons.prems(3) [of i r1] I1 by simp
      then have "I (snd (progress_loop env fp site label rest ?r2))"
        by (rule Cons.IH) (use Cons.prems(2,3) in auto)
      with tok ts None show ?thesis by simp
    qed
  qed
qed

lemma progress_loop_falls_through:
  assumes "\<And>i. i \<in> set xs \<Longrightarrow> sleep_raises env (site i) = None"
    and "\<And>i w. i \<in> set xs \<Longrightarrow> current_job w = Some fp \<Longrightarrow> current_job (during_sleep env (site i) w) = Some fp"
    and "current_job (shared r) = Some fp"
  shows "fst (progress_loop env fp site label xs r) = Fell_through
       \<and> current_job (shared (snd (progress_loop env fp site label xs r))) = Some fp"
  using assms
proof (induction xs arbitrary: r)
  case Nil
  then show ?case by simp
next
  case (Cons i rest)
  obtain r1 where ts: "time_sleep env (site i) r = (None, r1)"
    and s1: "shared r1 = during_sleep env (site i) (shared r)"
    using Cons.prems(1) [of i] by (simp add: time_sleep_def)
  let ?r2 = "update_job_status [(''progress'', PInt i), (''message'', PStr (label @ py_str i @ ''%''))] r1"
  have "current_job (shared ?r2) = Some fp"
    using Cons.prems(2) [of i "shared r"] Cons.prems(3) s1 by simp
  then have "fst (progress_loop env fp site label rest ?r2) = Fell_through
       \<and> current_job (shared (snd (progress_loop env fp site label rest ?r2))) = Some fp"
    by (intro Cons.IH) (use Cons.prems(1,2) in auto)
  with Cons.prems(3) ts show ?case by simp
qed


lemma well_formed_update:
  "well_formed (shared (update_job_status d r)) = well_formed (shared r)"
  by (simp add: well_formed_def)

lemma progress_loop_well_formed:
  assumes "\<And>site x. well_formed x \<Longrightarrow> well_formed (during_sleep env site x)"
    and "well_formed (shared r)"
  shows "well_formed (shared (snd (progress_loop env fp site label xs r)))"
proof (rule progress_loop_invariant [where I = "\<lambda>x. well_formed (shared x)"])
  show "well_formed (shared r)" by (rule assms(2))
  show "well_formed (shared (snd (time_sleep env (site i) x)))" if "well_formed (shared x)" for i x
    using assms(1) [OF that] by simp
  show "well_formed (shared (update_job_status
      [(''progress'', PInt i), (''message'', PStr (label @ py_str i @ ''%''))] x))"
    if "well_formed (shared x)" for i x
    using that by (simp only: well_formed_update)
qed

lemma process_book_job_well_formed:
  assumes "well_formed w" and "fp \<noteq> []"
    and "\<And>site x. well_formed x \<Longrightarrow> well_formed (during_sleep env site x)"
  shows "well_formed (shared (final (process_book_job env fp opts w)))"
proof (cases "VOXNOVEL_AVAILABLE env")
  case False
  with assms(1) show ?thesis by (simp add: process_book_job_def well_formed_def)
next
  case True
  let ?r2 = "update_job_status (processing_update env)
               (set_current_job (Some fp) \<lparr>shared = w, writes = []\<rparr>)"
  let ?l1 = "progress_loop env fp Text_sleep ''Processing book text... '' (py_range 10 50 5) ?r2"
  let ?l2 = "progress_loop env fp Audio_sleep ''Generating audio... '' (py_range 50 90 5) (snd ?l1)"
  have w2: "well_formed (shared ?r2)" using assms(1,2) by (simp add: well_formed_def)
  have w3: "well_formed (shared (snd ?l1))"
    using assms(3) w2 by (rule progress_loop_well_formed)
  have w4: "well_formed (shared (snd ?l2))"
    using assms(3) w3 by (rule progress_loop_well_formed)
  obtain ex1 r1 where l1: "?l1 = (ex1, r1)" by (cases ?l1)
  obtain ex2 r2 where l2: "?l2 = (ex2, r2)" by (cases ?l2)
  from l1 w3 have w3': "well_formed (shared r1)" by simp
  from l2 w4 have w4': "well_formed (shared r2)" by simp
  from l1 l2 have l2': "progress_loop env fp Audio_sleep ''Generating audio... ''
      (py_range 50 90 5) r1 = (ex2, r2)" by simp
  have "well_formed (during_sleep env Final_sleep (shared r2))" using w4' by (rule assms(3))
  then show ?thesis
    using True l1 l2' w3' w4'
    by (auto simp: process_book_job_def Let_def processing_update_def try_block_def
        final_processing_def time_sleep_def well_formed_def
        split: exit.splits option.splits)
qed

lemma take_loop_steps_first:
  "k \<le> length (py_range 10 50 5) \<Longrightarrow> take k loop_steps = take k (py_range 10 50 5)"
  by (simp add: loop_steps_def)

lemma take_loop_steps_second:
  "take (length (py_range 10 50 5) + k) loop_steps = py_range 10 50 5 @ take k (py_range 50 90 5)"
  by (simp add: loop_steps_def)

lemma final_processing_cases:
  assumes "final_processing env fname r = (ex, r')"
  defines "name \<equiv> fst (os_path_splitext fname) @ ''_audiobook.m4b''"
  shows "(ex = Fell_through \<and>
            writes r' = writes r @ [File_write (os_path_join OUTPUT_FOLDER name)
                                      ''This would be the generated audiobook file'',
                                    Status_write (completed_update name) (job_status (shared r'))]
            \<and> (\<exists>old. job_status (shared r') = old ++ map_of (completed_update name))
            \<and> disk (shared r') (os_path_join OUTPUT_FOLDER name)
                 = Some ''This would be the generated audiobook file'')
       \<or> ((\<exists>e. ex = Raised e) \<and> writes r' = writes r
            \<and> job_status (shared r') = job_status (during_sleep env Final_sleep (shared r)))"
  using assms(1) unfolding name_def final_processing_def time_sleep_def Let_def completed_update_def
  by (auto split: option.splits)

lemma try_block_writes:
  assumes "try_block env fp fname r = (ex, r')"
  defines "name \<equiv> fst (os_path_splitext fname) @ ''_audiobook.m4b''"
  shows "\<exists>k evs. k \<le> length loop_steps \<and> list_all2 progress_event (take k loop_steps) evs \<and>
     (if ex = Fell_through then
        k = length loop_steps
        \<and> writes r' = writes r @ evs @
              [File_write (os_path_join OUTPUT_FOLDER name) ''This would be the generated audiobook file'',
               Status_write (completed_update name) (job_status (shared r'))]
        \<and> (\<exists>old. job_status (shared r') = old ++ map_of (completed_update name))
        \<and> disk (shared r') (os_path_join OUTPUT_FOLDER name)
             = Some ''This would be the generated audiobook file''
      else writes r' = writes r @ evs)"
proof -
  let ?R1 = "py_range 10 50 5" and ?R2 = "py_range 50 90 5"
  obtain ex1 r1 where l1:
    "progress_loop env fp Text_sleep ''Processing book text... '' ?R1 r = (ex1, r1)"
    by (cases "progress_loop env fp Text_sleep ''Processing book text... '' ?R1 r")
  from progress_loop_writes [OF l1] obtain k1 evs1 where
    k1: "k1 \<le> length ?R1" and w1: "writes r1 = writes r @ evs1"
    and a1: "list_all2 progress_event (take k1 ?R1) evs1"
    and f1: "ex1 = Fell_through \<longrightarrow> k1 = length ?R1" by blast
  show ?thesis
  proof (cases "ex1 = Fell_through")
    case False
    with assms(1) l1 have "ex = ex1" "r' = r1"
      by (auto simp: try_block_def split: exit.splits)
    moreover from k1 have "k1 \<le> length loop_steps" by (simp add: loop_steps_def)
    moreover from a1 k1 have "list_all2 progress_event (take k1 loop_steps) evs1"
      by (simp add: take_loop_steps_first)
    ultimately show ?thesis using False w1 by (intro exI [of _ k1] exI [of _ evs1]) simp
  next
    case ft1: True
    with f1 have k1': "k1 = length ?R1" by simp
    with a1 have a1': "list_all2 progress_event ?R1 evs1" by simp
    obtain ex2 r2 where l2:
      "progress_loop env fp Audio_sleep ''Generating audio... '' ?R2 r1 = (ex2, r2)"
      by (cases "progress_loop env fp Audio_sleep ''Generating audio... '' ?R2 r1")
    from progress_loop_writes [OF l2] obtain k2 evs2 where
      k2: "k2 \<le> length ?R2" and w2: "writes r2 = writes r1 @ evs2"
      and a2: "list_all2 progress_event (take k2 ?R2) evs2"
      and f2: "ex2 = Fell_through \<longrightarrow> k2 = length ?R2" by blast
    let ?k = "length ?R1 + k2"
    have kk: "?k \<le> length loop_steps" using k2 by (simp add: loop_steps_def)
    have aa: "list_all2 progress_event (take ?k loop_steps) (evs1 @ evs2)"
      unfolding take_loop_steps_second using a1' a2 by (rule list_all2_appendI)
    have ww: "writes r2 = writes r @ evs1 @ evs2" using w1 w2 by simp
    show ?thesis
    proof (cases "ex2 = Fell_through")
      case False
      with assms(1) l1 l2 ft1 have "ex = ex2" "r' = r2"
        by (auto simp: try_block_def split: exit.splits)
      with False kk aa ww show ?thesis
        by (intro exI [of _ ?k] exI [of _ "evs1 @ evs2"]) simp
    next
      case ft2: True
      with f2 have "?k = length loop_steps" by (simp add: loop_steps_def)
      moreover from assms(1) l1 l2 ft1 ft2 have "final_processing env fname r2 = (ex, r')"
        by (simp add: try_block_def)
      note final_processing_cases [OF this, folded name_def]
      ultimately show ?thesis using kk aa ww
        by (intro exI [of _ ?k] exI [of _ "evs1 @ evs2"]) auto
    qed
  qed
qed


lemma process_book_job_trace:
  assumes "VOXNOVEL_AVAILABLE env"
  shows "\<exists>k evs. k \<le> length loop_steps \<and> list_all2 progress_event (take k loop_steps) evs \<and>
    (case how (process_book_job env fp opts w) of
       Succeeded \<Rightarrow>
         k = length loop_steps
         \<and> writes (final (process_book_job env fp opts w)) =
             [Token_write (Some fp),
              Status_write (processing_update env) (job_status w ++ map_of (processing_update env))]
             @ evs @
             [File_write (os_path_join OUTPUT_FOLDER (output_name fp)) output_text,
              Status_write (completed_update (output_name fp))
                (job_status (shared (final (process_book_job env fp opts w)))),
              Token_write None]
         \<and> (\<exists>old. job_status (shared (final (process_book_job env fp opts w)))
                    = old ++ map_of (completed_update (output_name fp)))
         \<and> disk (shared (final (process_book_job env fp opts w)))
              (os_path_join OUTPUT_FOLDER (output_name fp)) = Some output_text
     | Failed e \<Rightarrow>
         writes (final (process_book_job env fp opts w)) =
             [Token_write (Some fp),
              Status_write (processing_update env) (job_status w ++ map_of (processing_update env))]
             @ evs @
             [Status_write (failed_update e)
                (job_status (shared (final (process_book_job env fp opts w)))),
              Token_write None]
         \<and> (\<exists>old. job_status (shared (final (process_book_job env fp opts w)))
                    = old ++ map_of (failed_update e))
     | Superseded \<Rightarrow>
         writes (final (process_book_job env fp opts w)) =
             [Token_write (Some fp),
              Status_write (processing_update env) (job_status w ++ map_of (processing_update env))]
             @ evs @ [Token_write None]
     | Unavailable \<Rightarrow> False)"
proof -
  let ?r2 = "update_job_status (processing_update env)
               (set_current_job (Some fp) \<lparr>shared = w, writes = []\<rparr>)"
  obtain ex r3 where tb: "try_block env fp (os_path_basename fp) ?r2 = (ex, r3)"
    by (cases "try_block env fp (os_path_basename fp) ?r2")
  from try_block_writes [OF tb] obtain k evs where
    k: "k \<le> length loop_steps" and a: "list_all2 progress_event (take k loop_steps) evs"
    and c: "if ex = Fell_through then
        k = length loop_steps
        \<and> writes r3 = writes ?r2 @ evs @
              [File_write (os_path_join OUTPUT_FOLDER (output_name fp)) output_text,
               Status_write (completed_update (output_name fp)) (job_status (shared r3))]
        \<and> (\<exists>old. job_status (shared r3) = old ++ map_of (completed_update (output_name fp)))
        \<and> disk (shared r3) (os_path_join OUTPUT_FOLDER (output_name fp)) = Some output_text
      else writes r3 = writes ?r2 @ evs"
    unfolding output_name_def output_text_def by blast
  have p: "process_book_job env fp opts w =
      (case ex of
         Raised e \<Rightarrow> \<lparr>how = Failed e,
                       final = set_current_job None (update_job_status (failed_update e) r3)\<rparr>
       | Returned \<Rightarrow> \<lparr>how = Superseded, final = set_current_job None r3\<rparr>
       | Fell_through \<Rightarrow> \<lparr>how = Succeeded, final = set_current_job None r3\<rparr>)"
    using assms tb
    by (simp add: process_book_job_def Let_def processing_update_def failed_update_def
        split: exit.splits)
  show ?thesis
  proof (cases ex)
    case Fell_through
    with p c k a show ?thesis
      by (intro exI [of _ k] exI [of _ evs]) simp
  next
    case Returned
    with p c k a show ?thesis
      by (intro exI [of _ k] exI [of _ evs]) simp
  next
    case (Raised e)
    with p c k a show ?thesis
      by (intro exI [of _ k] exI [of _ evs]) auto
  qed
qed


lemma range_text: "py_range 10 50 5 = [10, 15, 20, 25, 30, 35, 40, 45]"
  by code_simp

lemma range_audio: "py_range 50 90 5 = [50, 55, 60, 65, 70, 75, 80, 85]"
  by code_simp

lemma loop_steps_eq:
  "loop_steps = [10, 15, 20, 25, 30, 35, 40, 45, 50, 55, 60, 65, 70, 75, 80, 85]"
  by (simp add: loop_steps_def range_text range_audio)

lemma progress_writes_append [simp]:
  "progress_writes (xs @ ys) = progress_writes xs @ progress_writes ys"
  by (simp add: progress_writes_def)

lemma progress_writes_Cons [simp]:
  "progress_writes (e # es) = progress_written e @ progress_writes es"
  "progress_writes [] = []"
  by (simp_all add: progress_writes_def)

lemma progress_written_simps [simp]:
  "progress_written (Token_write v) = []"
  "progress_written (File_write p c) = []"
  "progress_written (Status_write (processing_update env) js) = [10]"
  "progress_written (Status_write (completed_update n) js) = [100]"
  "progress_written (Status_write (failed_update e) js) = [0]"
  "progress_written (Status_write unavailable_update js) = [0]"
  by (simp_all add: progress_written_def processing_update_def completed_update_def
      failed_update_def unavailable_update_def)

lemma status_written_simps [simp]:
  "status_written (Token_write v) = []"
  "status_written (File_write p c) = []"
  "status_written (Status_write (processing_update env) js) = [''processing'']"
  "status_written (Status_write (completed_update n) js) = [''completed'']"
  "status_written (Status_write (failed_update e) js) = [''error'']"
  "status_written (Status_write unavailable_update js) = [''error'']"
  by (simp_all add: status_written_def processing_update_def completed_update_def
      failed_update_def unavailable_update_def)

lemma progress_event_facts:
  assumes "progress_event i e"
  shows "progress_written e = [i]" and "status_written e = []"
    and "is_status_write e" and "\<not> is_file_write e"
  using assms
  by (auto simp: progress_event_def progress_written_def status_written_def
      is_status_write_def is_file_write_def)

lemma progress_events_facts:
  assumes "list_all2 progress_event xs evs"
  shows "progress_writes evs = xs" and "concat (map status_written evs) = []"
    and "\<not> list_ex is_file_write evs" and "list_all is_status_write evs"
  using assms
  by (induction rule: list_all2_induct) (simp_all add: progress_event_facts)

lemma before_last_append: "c \<notin> set e \<Longrightarrow> before_last c (p @ c # e) = p"
proof -
  assume "c \<notin> set e"
  then have "dropWhile (\<lambda>x. x \<noteq> c) (rev e @ c # rev p) = c # rev p"
    by (auto simp: dropWhile_append)
  then show ?thesis by (simp add: before_last_def)
qed

lemma os_path_basename_after: "os_path_basename p = after_last CHR ''/'' p"
proof (cases "CHR ''/'' \<in> set p")
  case True
  from split_at_last [OF True]
  have "drop (length (before_last CHR ''/'' p) + 1) p = after_last CHR ''/'' p"
    by (metis append_eq_conv_conj drop_Suc_Cons drop_drop add.commute plus_1_eq_Suc drop0)
  with True show ?thesis by (simp add: os_path_basename_def py_rfind_def nat_add_distrib)
next
  case False
  then have "\<forall>x \<in> set (rev p). x \<noteq> CHR ''/''" by auto
  then have "takeWhile (\<lambda>x. x \<noteq> CHR ''/'') (rev p) = rev p"
    by (rule takeWhile_eq_all_conv [THEN iffD2])
  then have t: "rev (takeWhile (\<lambda>x. x \<noteq> CHR ''/'') (rev p)) = p"
    by (simp only: rev_rev_ident)
  show ?thesis unfolding os_path_basename_def py_rfind_def after_last_def t
    using False by simp
qed

lemma os_path_basename_no_slash: "CHR ''/'' \<notin> set (os_path_basename p)"
  by (simp add: os_path_basename_after after_last_free)

lemma os_path_basename_join:
  "CHR ''/'' \<notin> set name \<Longrightarrow> os_path_basename (folder @ ''/'' @ name) = name"
  by (simp add: os_path_basename_after after_last_append)

lemma splitext_fst_subset: "set (fst (os_path_splitext p)) \<subseteq> set p"
  by (auto simp: os_path_splitext_def Let_def dest: in_set_takeD)

lemma os_path_splitext_stem:
  assumes "CHR ''.'' \<notin> set ext" and "CHR ''/'' \<notin> set stem" and "CHR ''/'' \<notin> set ext"
    and "\<exists>c \<in> set stem. c \<noteq> CHR ''.''"
  shows "os_path_splitext (stem @ CHR ''.'' # ext) = (stem, CHR ''.'' # ext)"
proof -
  let ?p = "stem @ CHR ''.'' # ext"
  have sep: "py_rfind CHR ''/'' ?p = - 1" using assms(2,3) by (simp add: py_rfind_def)
  have dot: "py_rfind CHR ''.'' ?p = int (length stem)"
    using assms(1) by (simp add: py_rfind_def before_last_append)
  have "py_slice ?p 0 (int (length stem)) = stem" by (simp add: py_slice_def)
  with assms(4) have "list_ex (\<lambda>c. c \<noteq> CHR ''.'') (py_slice ?p (- 1 + 1) (int (length stem)))"
    by (simp add: list_ex_iff)
  then show ?thesis by (simp add: os_path_splitext_def sep dot Let_def)
qed

lemma output_name_inside:
  "os_path_join OUTPUT_FOLDER (output_name fp) = OUTPUT_FOLDER @ ''/'' @ output_name fp"
  "directly_inside OUTPUT_FOLDER (os_path_join OUTPUT_FOLDER (output_name fp))"
proof -
  let ?n = "output_name fp"
  have "set (fst (os_path_splitext (os_path_basename fp))) \<subseteq> set (os_path_basename fp)"
    by (rule splitext_fst_subset)
  then have "CHR ''/'' \<notin> set (fst (os_path_splitext (os_path_basename fp)))"
    using os_path_basename_no_slash by blast
  then have 1: "CHR ''/'' \<notin> set ?n" by (simp add: output_name_def)
  have "length ?n \<ge> 14" by (simp add: output_name_def)
  then have 2: "?n \<noteq> []" "?n \<noteq> ''.''" "?n \<noteq> ''..''" by auto
  have 3: "OUTPUT_FOLDER \<noteq> []" "last OUTPUT_FOLDER \<noteq> CHR ''/''" by (simp_all add: OUTPUT_FOLDER_def)
  show "os_path_join OUTPUT_FOLDER ?n = OUTPUT_FOLDER @ ''/'' @ ?n"
    using 2(1) 1 2(2,3) 3 by (rule directly_inside_join(1))
  show "directly_inside OUTPUT_FOLDER (os_path_join OUTPUT_FOLDER ?n)"
    using 2(1) 1 2(2,3) 3 by (rule directly_inside_join(2))
qed

lemma how_Unavailable:
  "(how (process_book_job env fp opts w) = Unavailable) = (\<not> VOXNOVEL_AVAILABLE env)"
  by (simp add: process_book_job_def Let_def split: prod.splits exit.splits)

lemma process_book_job_final:
  assumes "VOXNOVEL_AVAILABLE env"
  shows "\<exists>r. final (process_book_job env fp opts w) = set_current_job None r"
  using assms by (auto simp: process_book_job_def Let_def split: prod.splits exit.splits)

lemma try_block_exit:
  assumes sleeps: "\<And>site. sleep_raises env site = None"
    and keep1: "\<And>i w. current_job w = Some fp \<Longrightarrow> current_job (during_sleep env (Text_sleep i) w) = Some fp"
    and keep2: "\<And>i w. current_job w = Some fp \<Longrightarrow> current_job (during_sleep env (Audio_sleep i) w) = Some fp"
    and tok: "current_job (shared r) = Some fp"
  shows "fst (try_block env fp fname r) =
           (case open_raises env (os_path_join OUTPUT_FOLDER
                   (fst (os_path_splitext fname) @ ''_audiobook.m4b'')) of
              None \<Rightarrow> Fell_through | Some e \<Rightarrow> Raised e)"
proof -
  obtain ex1 r1 where l1:
    "progress_loop env fp Text_sleep ''Processing book text... '' (py_range 10 50 5) r = (ex1, r1)"
    by (cases "progress_loop env fp Text_sleep ''Processing book text... '' (py_range 10 50 5) r")
  have "fst (progress_loop env fp Text_sleep ''Processing book text... '' (py_range 10 50 5) r)
          = Fell_through
      \<and> current_job (shared (snd (progress_loop env fp Text_sleep ''Processing book text... ''
            (py_range 10 50 5) r))) = Some fp"
    by (rule progress_loop_falls_through) (use sleeps keep1 tok in auto)
  with l1 have e1: "ex1 = Fell_through" and t1: "current_job (shared r1) = Some fp" by simp_all
  obtain ex2 r2 where l2:
    "progress_loop env fp Audio_sleep ''Generating audio... '' (py_range 50 90 5) r1 = (ex2, r2)"
    by (cases "progress_loop env fp Audio_sleep ''Generating audio... '' (py_range 50 90 5) r1")
  have "fst (progress_loop env fp Audio_sleep ''Generating audio... '' (py_range 50 90 5) r1)
          = Fell_through
      \<and> current_job (shared (snd (progress_loop env fp Audio_sleep ''Generating audio... ''
            (py_range 50 90 5) r1))) = Some fp"
    by (rule progress_loop_falls_through) (use sleeps keep2 t1 in auto)
  with l2 have e2: "ex2 = Fell_through" by simp
  have "try_block env fp fname r = final_processing env fname r2"
    using l1 l2 e1 e2 by (simp add: try_block_def)
  then show ?thesis
    using sleeps [of Final_sleep]
    by (simp add: final_processing_def time_sleep_def Let_def split: option.splits)
qed

lemma run_ending:
  assumes "VOXNOVEL_AVAILABLE env"
    and "\<And>site. sleep_raises env site = None"
    and "\<And>i w. current_job w = Some fp \<Longrightarrow> current_job (during_sleep env (Text_sleep i) w) = Some fp"
    and "\<And>i w. current_job w = Some fp \<Longrightarrow> current_job (during_sleep env (Audio_sleep i) w) = Some fp"
  shows "how (process_book_job env fp opts w) =
           (case open_raises env (os_path_join OUTPUT_FOLDER (output_name fp)) of
              None \<Rightarrow> Succeeded | Some e \<Rightarrow> Failed e)"
proof -
  let ?r2 = "update_job_status (processing_update env)
               (set_current_job (Some fp) \<lparr>shared = w, writes = []\<rparr>)"
  have "current_job (shared ?r2) = Some fp" by simp
  from try_block_exit [of env fp ?r2 "os_path_basename fp", OF assms(2,3,4) this]
  have "fst (try_block env fp (os_path_basename fp) ?r2) =
          (case open_raises env (os_path_join OUTPUT_FOLDER (output_name fp)) of
             None \<Rightarrow> Fell_through | Some e \<Rightarrow> Raised e)"
    by (simp add: output_name_def)
  then show ?thesis
    using assms(1)
    by (cases "try_block env fp (os_path_basename fp) ?r2")
      (auto simp: process_book_job_def Let_def processing_update_def split: option.splits)
qed

lemma quiet_run_succeeds: "how (process_book_job quiet_env fp opts w) = Succeeded"
proof -
  have "how (process_book_job quiet_env fp opts w) =
           (case open_raises quiet_env (os_path_join OUTPUT_FOLDER (output_name fp)) of
              None \<Rightarrow> Succeeded | Some e \<Rightarrow> Failed e)"
    by (rule run_ending) (simp_all add: quiet_env_def)
  then show ?thesis by (simp add: quiet_env_def)
qed

lemma failing_run_fails: "how (process_book_job (failing_env msg) fp opts w) = Failed msg"
proof -
  have "how (process_book_job (failing_env msg) fp opts w) =
           (case open_raises (failing_env msg) (os_path_join OUTPUT_FOLDER (output_name fp)) of
              None \<Rightarrow> Succeeded | Some e \<Rightarrow> Failed e)"
    by (rule run_ending) (simp_all add: failing_env_def quiet_env_def)
  then show ?thesis by (simp add: failing_env_def)
qed


lemma progress_loop_disk:
  assumes "\<And>site w. disk (during_sleep env site w) = disk w"
  shows "disk (shared (snd (progress_loop env fp site label xs r))) = disk (shared r)"
  by (rule progress_loop_invariant [where I = "\<lambda>x. disk (shared x) = disk (shared r)"])
    (simp_all add: assms)

lemma process_book_job_disk:
  assumes "\<And>site w. disk (during_sleep env site w) = disk w"
  shows "disk (shared (final (process_book_job env fp opts w))) =
           (if how (process_book_job env fp opts w) = Succeeded
            then (disk w)(os_path_join OUTPUT_FOLDER (output_name fp) \<mapsto> output_text)
            else disk w)"
proof (cases "VOXNOVEL_AVAILABLE env")
  case False
  then show ?thesis by (simp add: process_book_job_def)
next
  case True
  let ?r2 = "update_job_status (processing_update env)
               (set_current_job (Some fp) \<lparr>shared = w, writes = []\<rparr>)"
  let ?l1 = "progress_loop env fp Text_sleep ''Processing book text... '' (py_range 10 50 5) ?r2"
  let ?l2 = "progress_loop env fp Audio_sleep ''Generating audio... '' (py_range 50 90 5) (snd ?l1)"
  have d1: "disk (shared (snd ?l1)) = disk w"
    using progress_loop_disk [OF assms, of fp Text_sleep _ _ ?r2] by simp
  have d2: "disk (shared (snd ?l2)) = disk w"
    using progress_loop_disk [OF assms, of fp Audio_sleep _ _ "snd ?l1"] d1 by simp
  obtain ex1 r1 where l1: "?l1 = (ex1, r1)" by (cases ?l1)
  obtain ex2 r2 where l2: "?l2 = (ex2, r2)" by (cases ?l2)
  from l1 d1 have d1': "disk (shared r1) = disk w" by simp
  from l2 d2 have d2': "disk (shared r2) = disk w" by simp
  from l1 l2 have l2': "progress_loop env fp Audio_sleep ''Generating audio... '' (py_range 50 90 5) r1
      = (ex2, r2)" by simp
  show ?thesis
    using True l1 l2' d1' d2' assms
    by (auto simp: process_book_job_def Let_def processing_update_def try_block_def
        final_processing_def time_sleep_def output_name_def output_text_def
        split: exit.splits option.splits)
qed

lemma upload_accepted:
  assumes "\<not> py_truthy (current_job w)"
    and "files req ''file'' = Some file"
    and "filename file \<noteq> []"
    and "allowed_file (filename file) = Inr True"
    and "save_raises env (os_path_join UPLOAD_FOLDER
           (secure_filename (unicode_decomp env) (filename file))) = None"
    and "get_options req = Inr opts"
  shows "upload_file env req w =
     (Inr (jsonify [(''message'', ''File uploaded and processing started''),
                    (''filename'', secure_filename (unicode_decomp env) (filename file))] 200),
      w\<lparr>disk := (disk w)(os_path_join UPLOAD_FOLDER
              (secure_filename (unicode_decomp env) (filename file)) \<mapsto> stream file),
        threads := threads w @ [(os_path_join UPLOAD_FOLDER
              (secure_filename (unicode_decomp env) (filename file)), opts)]\<rparr>)"
  using assms by (simp add: upload_file_def Let_def)

lemma book_upload_accepted:
  assumes "current_job w = None"
  shows "upload_file quiet_env (book_request ''book.epub'' text) w =
     (Inr (jsonify [(''message'', ''File uploaded and processing started''),
                    (''filename'', ''book.epub'')] 200),
      w\<lparr>disk := (disk w)(''/app/uploads/book.epub'' \<mapsto> text),
        threads := threads w @ [(''/app/uploads/book.epub'', default_options)]\<rparr>)"
proof -
  let ?req = "book_request ''book.epub'' text"
  let ?file = "\<lparr>filename = ''book.epub'', stream = text\<rparr>"
  have n: "secure_filename (unicode_decomp quiet_env) ''book.epub'' = ''book.epub''" by code_simp
  have p: "os_path_join UPLOAD_FOLDER ''book.epub'' = ''/app/uploads/book.epub''" by code_simp
  have 1: "\<not> py_truthy (current_job w)" using assms by (simp add: py_truthy_def)
  have 2: "files ?req ''file'' = Some ?file" by (simp add: book_request_def)
  have 3: "filename ?file \<noteq> []" by simp
  have "allowed_file ''book.epub'' = Inr True" by code_simp
  then have 4: "allowed_file (filename ?file) = Inr True" by simp
  have 5: "save_raises quiet_env (os_path_join UPLOAD_FOLDER
           (secure_filename (unicode_decomp quiet_env) (filename ?file))) = None"
    by (simp add: quiet_env_def)
  have 6: "get_options ?req = Inr default_options"
    by (simp add: get_options_def book_request_def form_get_def default_options_def py_lower_def
        py_lower_char_def)
  show ?thesis using upload_accepted [OF 1 2 3 4 5 6] by (simp add: n p)
qed

lemma first_job_done_facts:
  "current_job first_job_done = None"
  "disk first_job_done ''/app/uploads/book.epub'' = Some ''first text''"
proof -
  let ?w = "snd (upload_file quiet_env (book_request ''book.epub'' ''first text'') initial_world)"
  let ?o = "process_book_job quiet_env ''/app/uploads/book.epub'' default_options ?w"
  have av: "VOXNOVEL_AVAILABLE quiet_env" by (simp add: quiet_env_def)
  from process_book_job_final [OF av, of "''/app/uploads/book.epub''" default_options ?w]
  show "current_job first_job_done = None" by (auto simp: first_job_done_def)
  have "disk (shared (final ?o)) =
      (if how ?o = Succeeded
       then (disk ?w)(os_path_join OUTPUT_FOLDER (output_name ''/app/uploads/book.epub'') \<mapsto> output_text)
       else disk ?w)"
    by (rule process_book_job_disk) (simp add: quiet_env_def)
  moreover have "os_path_join OUTPUT_FOLDER (output_name ''/app/uploads/book.epub'')
      = ''/app/output_audiobooks/book_audiobook.m4b''" by code_simp
  moreover have "current_job initial_world = None" by (simp add: initial_world_def)
  then have "disk ?w ''/app/uploads/book.epub'' = Some ''first text''"
    by (simp add: book_upload_accepted)
  ultimately show "disk first_job_done ''/app/uploads/book.epub'' = Some ''first text''"
    by (simp add: first_job_done_def)
qed

section \<open>Where an upload is stored\<close>

text \<open>
  Claim C6, as amended. When the handler saves an upload (no job is running, the request
  holds a file with an allowed extension, and \<open>file.save\<close> raises nothing), the file is
  written at \<open>UPLOAD_FOLDER/secure_filename(name)\<close>, a path directly inside the uploads
  folder: the stored name is not empty, has no separator and is neither \<open>.\<close> nor \<open>..\<close>, so
  no sequence such as \<open>../../\<close> in the uploaded name leads out of the folder. The disk
  after the save is the disk before with the upload's content at that path, whatever was
  stored there before.
\<close>

theorem upload_saved_inside_uploads:
  assumes "\<not> py_truthy (current_job w)"
    and "files req ''file'' = Some file"
    and "filename file \<noteq> []"
    and "allowed_file (filename file) = Inr True"
    and "save_raises env (os_path_join UPLOAD_FOLDER (secure_filename (unicode_decomp env) (filename file))) = None"
  shows "directly_inside UPLOAD_FOLDER
           (os_path_join UPLOAD_FOLDER (secure_filename (unicode_decomp env) (filename file)))
       \<and> disk (snd (upload_file env req w)) =
           (disk w)(os_path_join UPLOAD_FOLDER
              (secure_filename (unicode_decomp env) (filename file)) \<mapsto> stream file)"
proof
  show "directly_inside UPLOAD_FOLDER
           (os_path_join UPLOAD_FOLDER (secure_filename (unicode_decomp env) (filename file)))"
    using assms(4) by (rule secure_filename_inside)
  show "disk (snd (upload_file env req w)) =
           (disk w)(os_path_join UPLOAD_FOLDER
              (secure_filename (unicode_decomp env) (filename file)) \<mapsto> stream file)"
    using assms by (simp add: upload_file_def Let_def split: sum.splits)
qed

lemma upload_file_disk_frame:
  "disk (snd (upload_file env req w)) = disk w \<or>
   (\<exists>file. files req ''file'' = Some file \<and> allowed_file (filename file) = Inr True \<and>
      disk (snd (upload_file env req w)) =
        (disk w)(os_path_join UPLOAD_FOLDER
           (secure_filename (unicode_decomp env) (filename file)) \<mapsto> stream file))"
  by (auto simp: upload_file_def Let_def split: option.splits sum.splits bool.splits)

theorem upload_saved_inside_uploads_witness:
  "directly_inside UPLOAD_FOLDER ''/app/uploads/etc_passwd.txt''
   \<and> disk (snd (upload_file quiet_env (book_request ''../../etc/passwd.txt'' ''text'') initial_world))
       = [''/app/uploads/etc_passwd.txt'' \<mapsto> ''text'']"
proof -
  let ?req = "book_request ''../../etc/passwd.txt'' ''text''"
  let ?file = "\<lparr>filename = ''../../etc/passwd.txt'', stream = ''text''\<rparr>"
  have 1: "\<not> py_truthy (current_job initial_world)"
    by (simp add: py_truthy_def initial_world_def)
  have 2: "files ?req ''file'' = Some ?file" by (simp add: book_request_def)
  have 3: "filename ?file \<noteq> []" by simp
  have 4: "allowed_file (filename ?file) = Inr True" by code_simp
  have 5: "save_raises quiet_env (os_path_join UPLOAD_FOLDER
             (secure_filename (unicode_decomp quiet_env) (filename ?file))) = None"
    by (simp add: quiet_env_def)
  have p: "os_path_join UPLOAD_FOLDER
             (secure_filename (unicode_decomp quiet_env) ''../../etc/passwd.txt'')
           = ''/app/uploads/etc_passwd.txt''" by code_simp
  show ?thesis
    using upload_saved_inside_uploads [OF 1 2 3 4 5]
    by (simp add: p initial_world_def)
qed

text \<open>
  Claim C6 as stated fails: once \<open>book.epub\<close> has been uploaded and its job has ended, a
  second upload named \<open>book.epub\<close> is accepted with status 200 and its content replaces the
  first upload's.
\<close>

theorem upload_overwrites_counterexample:
  "disk first_job_done ''/app/uploads/book.epub'' = Some ''first text''
   \<and> fst (upload_file quiet_env (book_request ''book.epub'' ''second text'') first_job_done)
       = Inr \<lparr>body = [(''message'', ''File uploaded and processing started''),
                       (''filename'', ''book.epub'')], code = 200\<rparr>
   \<and> disk (snd (upload_file quiet_env (book_request ''book.epub'' ''second text'') first_job_done))
       ''/app/uploads/book.epub'' = Some ''second text''"
  by (simp add: book_upload_accepted [OF first_job_done_facts(1)] first_job_done_facts(2)
      jsonify_def)

section \<open>The worker: the token and the progress\<close>

lemma upload_not_blocked:
  assumes "current_job w = None"
  shows "fst (upload_file env req w) \<noteq> Inr (jsonify [(''error'', ''Another job is already running'')] 400)"
  using assms
  by (auto simp: upload_file_def py_truthy_def jsonify_def Let_def
      split: option.splits sum.splits bool.splits)

text \<open>
  Claim C2. A call of \<open>process_book_job\<close> that stores the token (every call when
  \<open>VOXNOVEL_AVAILABLE\<close> is true) returns, and when it does the token is \<open>None\<close>: storing
  \<open>None\<close> is the last thing it writes, whether the \<open>try\<close> block ended normally, by an
  exception or by the \<open>return\<close> of a failed comparison. An upload that arrives in the state
  the worker leaves is not answered with \<open>Another job is already running\<close>.
\<close>

theorem token_cleared_when_worker_ends:
  assumes "VOXNOVEL_AVAILABLE env"
  shows "current_job (shared (final (process_book_job env fp opts w))) = None
       \<and> writes (final (process_book_job env fp opts w)) \<noteq> []
       \<and> last (writes (final (process_book_job env fp opts w))) = Token_write None
       \<and> hd (writes (final (process_book_job env fp opts w))) = Token_write (Some fp)
       \<and> fst (upload_file env' req (shared (final (process_book_job env fp opts w))))
           \<noteq> Inr (jsonify [(''error'', ''Another job is already running'')] 400)"
proof -
  from process_book_job_final [OF assms] obtain r where
    r: "final (process_book_job env fp opts w) = set_current_job None r" by blast
  then have tok: "current_job (shared (final (process_book_job env fp opts w))) = None"
    and lst: "last (writes (final (process_book_job env fp opts w))) = Token_write None"
    and ne: "writes (final (process_book_job env fp opts w)) \<noteq> []"
    by simp_all
  from process_book_job_trace [OF assms, of fp opts w]
  have "hd (writes (final (process_book_job env fp opts w))) = Token_write (Some fp)"
    by (cases "how (process_book_job env fp opts w)") auto
  with tok lst ne upload_not_blocked [OF tok] show ?thesis by simp
qed

theorem token_cleared_when_worker_ends_witness:
  "VOXNOVEL_AVAILABLE (failing_env ''No space left on device'')
   \<and> how (process_book_job (failing_env ''No space left on device'') ''/app/uploads/book.epub''
           default_options initial_world) = Failed ''No space left on device''
   \<and> current_job (shared (final (process_book_job (failing_env ''No space left on device'')
           ''/app/uploads/book.epub'' default_options initial_world))) = None
   \<and> fst (upload_file quiet_env (book_request ''next.pdf'' ''text'')
           (shared (final (process_book_job (failing_env ''No space left on device'')
              ''/app/uploads/book.epub'' default_options initial_world))))
       \<noteq> Inr (jsonify [(''error'', ''Another job is already running'')] 400)"
proof -
  have a: "VOXNOVEL_AVAILABLE (failing_env ''No space left on device'')"
    by (simp add: failing_env_def quiet_env_def)
  show ?thesis
    using a failing_run_fails [of "''No space left on device''"]
      token_cleared_when_worker_ends [OF a, of "''/app/uploads/book.epub''" default_options
        initial_world quiet_env "book_request ''next.pdf'' ''text''"]
    by simp
qed

text \<open>
  Claim C4, as amended. In a run that is not superseded, the values that the worker writes
  under \<open>progress\<close> are integers between 0 and 100, the first of them at least 0. When the
  run succeeds they never decrease, the last one is 100 and \<open>job_status\<close> ends with
  progress 100. When the run fails with an exception of text \<open>e\<close>, they never decrease up
  to the last one, which resets the progress to 0, and \<open>job_status\<close> ends with progress 0
  and the message \<open>Processing failed: e\<close>.
\<close>

theorem progress_never_decreases:
  "(how (process_book_job env fp opts w) = Succeeded \<longrightarrow>
      progress_writes (writes (final (process_book_job env fp opts w))) \<noteq> []
      \<and> sorted (progress_writes (writes (final (process_book_job env fp opts w))))
      \<and> (\<forall>p \<in> set (progress_writes (writes (final (process_book_job env fp opts w)))). 0 \<le> p \<and> p \<le> 100)
      \<and> 0 \<le> hd (progress_writes (writes (final (process_book_job env fp opts w))))
      \<and> last (progress_writes (writes (final (process_book_job env fp opts w)))) = 100
      \<and> job_status (shared (final (process_book_job env fp opts w))) ''progress'' = Some (PInt 100))
   \<and> (how (process_book_job env fp opts w) = Failed e \<longrightarrow>
      progress_writes (writes (final (process_book_job env fp opts w))) \<noteq> []
      \<and> sorted (butlast (progress_writes (writes (final (process_book_job env fp opts w)))))
      \<and> (\<forall>p \<in> set (progress_writes (writes (final (process_book_job env fp opts w)))). 0 \<le> p \<and> p \<le> 100)
      \<and> 0 \<le> hd (progress_writes (writes (final (process_book_job env fp opts w))))
      \<and> last (progress_writes (writes (final (process_book_job env fp opts w)))) = 0
      \<and> job_status (shared (final (process_book_job env fp opts w))) ''progress'' = Some (PInt 0)
      \<and> job_status (shared (final (process_book_job env fp opts w))) ''message''
           = Some (PStr (''Processing failed: '' @ e)))"
proof (cases "VOXNOVEL_AVAILABLE env")
  case False
  then have "how (process_book_job env fp opts w) = Unavailable" by (simp add: how_Unavailable)
  then show ?thesis by simp
next
  case True
  let ?o = "process_book_job env fp opts w"
  let ?ps = "progress_writes (writes (final ?o))"
  from process_book_job_trace [OF True, of fp opts w] obtain k evs where
    k: "k \<le> length loop_steps" and a: "list_all2 progress_event (take k loop_steps) evs"
    and c: "case how ?o of
       Succeeded \<Rightarrow>
         k = length loop_steps
         \<and> writes (final ?o) =
             [Token_write (Some fp),
              Status_write (processing_update env) (job_status w ++ map_of (processing_update env))]
             @ evs @
             [File_write (os_path_join OUTPUT_FOLDER (output_name fp)) output_text,
              Status_write (completed_update (output_name fp)) (job_status (shared (final ?o))),
              Token_write None]
         \<and> (\<exists>old. job_status (shared (final ?o)) = old ++ map_of (completed_update (output_name fp)))
         \<and> disk (shared (final ?o)) (os_path_join OUTPUT_FOLDER (output_name fp)) = Some output_text
     | Failed e \<Rightarrow>
         writes (final ?o) =
             [Token_write (Some fp),
              Status_write (processing_update env) (job_status w ++ map_of (processing_update env))]
             @ evs @
             [Status_write (failed_update e) (job_status (shared (final ?o))), Token_write None]
         \<and> (\<exists>old. job_status (shared (final ?o)) = old ++ map_of (failed_update e))
     | Superseded \<Rightarrow>
         writes (final ?o) =
             [Token_write (Some fp),
              Status_write (processing_update env) (job_status w ++ map_of (processing_update env))]
             @ evs @ [Token_write None]
     | Unavailable \<Rightarrow> False"
    by blast
  have pe: "progress_writes evs = take k loop_steps" using a by (rule progress_events_facts(1))
  have sub: "set (take k loop_steps) \<subseteq> set loop_steps" by (rule set_take_subset)
  have bounds: "\<forall>p \<in> set loop_steps. 10 \<le> p \<and> p \<le> 85" by (simp add: loop_steps_eq)
  have srt: "sorted loop_steps" by (simp add: loop_steps_eq)
  have srt_take: "sorted (10 # take k loop_steps)"
    using sorted_wrt_take [OF srt, of k] bounds sub by auto
  show ?thesis
  proof (intro conjI impI)
    assume s: "how ?o = Succeeded"
    with c k pe have ps: "?ps = 10 # loop_steps @ [100]" by simp
    show "?ps \<noteq> []" unfolding ps by simp
    show "sorted ?ps" unfolding ps by (simp add: loop_steps_eq)
    show "\<forall>p \<in> set ?ps. 0 \<le> p \<and> p \<le> 100" unfolding ps by (simp add: loop_steps_eq)
    show "0 \<le> hd ?ps" unfolding ps by simp
    show "last ?ps = 100" unfolding ps by simp
    from s c obtain old where
      "job_status (shared (final ?o)) = old ++ map_of (completed_update (output_name fp))"
      by auto
    then show "job_status (shared (final ?o)) ''progress'' = Some (PInt 100)"
      by (simp add: completed_update_def)
  next
    assume f: "how ?o = Failed e"
    with c pe have ps: "?ps = (10 # take k loop_steps) @ [0]" by simp
    show "?ps \<noteq> []" unfolding ps by simp
    show "sorted (butlast ?ps)" unfolding ps butlast_snoc by (rule srt_take)
    show "\<forall>p \<in> set ?ps. 0 \<le> p \<and> p \<le> 100" unfolding ps using bounds sub by fastforce
    show "0 \<le> hd ?ps" unfolding ps by simp
    show "last ?ps = 0" unfolding ps by simp
    from f c obtain old where
      j: "job_status (shared (final ?o)) = old ++ map_of (failed_update e)" by auto
    show "job_status (shared (final ?o)) ''progress'' = Some (PInt 0)"
      unfolding j by (simp add: failed_update_def)
    show "job_status (shared (final ?o)) ''message'' = Some (PStr (''Processing failed: '' @ e))"
      unfolding j by (simp add: failed_update_def)
  qed
qed

theorem progress_never_decreases_witness:
  "how (process_book_job quiet_env ''/app/uploads/book.epub'' default_options initial_world) = Succeeded
   \<and> sorted (progress_writes (writes (final
        (process_book_job quiet_env ''/app/uploads/book.epub'' default_options initial_world))))
   \<and> last (progress_writes (writes (final
        (process_book_job quiet_env ''/app/uploads/book.epub'' default_options initial_world)))) = 100
   \<and> how (process_book_job (failing_env ''No space left on device'') ''/app/uploads/book.epub''
        default_options initial_world) = Failed ''No space left on device''
   \<and> last (progress_writes (writes (final
        (process_book_job (failing_env ''No space left on device'') ''/app/uploads/book.epub''
           default_options initial_world)))) = 0
   \<and> job_status (shared (final
        (process_book_job (failing_env ''No space left on device'') ''/app/uploads/book.epub''
           default_options initial_world))) ''message''
       = Some (PStr ''Processing failed: No space left on device'')"
  using progress_never_decreases [of quiet_env "''/app/uploads/book.epub''" default_options
      initial_world "''No space left on device''"]
    progress_never_decreases [of "failing_env ''No space left on device''"
      "''/app/uploads/book.epub''" default_options initial_world "''No space left on device''"]
    quiet_run_succeeds [of "''/app/uploads/book.epub''" default_options initial_world]
    failing_run_fails [of "''No space left on device''" "''/app/uploads/book.epub''"
      default_options initial_world]
  by simp

text \<open>
  Claim C4 as stated fails on a run that fails: the write of the \<open>except\<close> clause sets the
  progress to 0 after values of 10 and more, so the values written do decrease once.
\<close>

theorem progress_reset_counterexample:
  "how (process_book_job (failing_env ''No space left on device'') ''/app/uploads/book.epub''
        default_options initial_world) = Failed ''No space left on device''
   \<and> \<not> sorted (progress_writes (writes (final
        (process_book_job (failing_env ''No space left on device'') ''/app/uploads/book.epub''
           default_options initial_world))))"
proof -
  let ?env = "failing_env ''No space left on device''"
  let ?o = "process_book_job ?env ''/app/uploads/book.epub'' default_options initial_world"
  have f: "how ?o = Failed ''No space left on device''" by (rule failing_run_fails)
  have av: "VOXNOVEL_AVAILABLE ?env" by (simp add: failing_env_def quiet_env_def)
  from process_book_job_trace [OF av, of "''/app/uploads/book.epub''" default_options initial_world] f
  obtain k evs where a: "list_all2 progress_event (take k loop_steps) evs"
    and wr: "writes (final ?o) =
             [Token_write (Some ''/app/uploads/book.epub''),
              Status_write (processing_update ?env)
                (job_status initial_world ++ map_of (processing_update ?env))]
             @ evs @
             [Status_write (failed_update ''No space left on device'')
                (job_status (shared (final ?o))), Token_write None]"
    by auto
  have "progress_writes (writes (final ?o)) = (10 # take k loop_steps) @ [0]"
    unfolding wr using progress_events_facts(1) [OF a] by simp
  then have "\<not> sorted (progress_writes (writes (final ?o)))"
    by (simp add: sorted_append)
  with f show ?thesis by simp
qed

section \<open>The worker: the output file\<close>

lemma output_name_book: "output_name ''/app/uploads/book.epub'' = ''book_audiobook.m4b''"
  by code_simp

text \<open>
  Claim C8. A run that succeeds writes exactly one file, \<open>OUTPUT_FOLDER/output_name\<close>, a
  path directly inside the outputs folder, where \<open>output_name\<close> is the base name of the
  upload's path with its extension replaced by \<open>_audiobook.m4b\<close>. The file is written
  first; the next write sets the status to \<open>completed\<close>, \<open>output_file\<close> to that name and the
  progress to 100, and nothing before the file was written set the status to
  \<open>completed\<close>. The run ends with the file on the disk and these three values in
  \<open>job_status\<close>.
\<close>

theorem success_writes_one_output:
  assumes "how (process_book_job env fp opts w) = Succeeded"
  shows "(\<exists>pre. writes (final (process_book_job env fp opts w)) =
            pre @ [File_write (OUTPUT_FOLDER @ ''/'' @ output_name fp) output_text,
                   Status_write (completed_update (output_name fp))
                     (job_status (shared (final (process_book_job env fp opts w)))),
                   Token_write None]
          \<and> \<not> list_ex is_file_write pre
          \<and> ''completed'' \<notin> set (concat (map status_written pre)))
       \<and> directly_inside OUTPUT_FOLDER (OUTPUT_FOLDER @ ''/'' @ output_name fp)
       \<and> disk (shared (final (process_book_job env fp opts w)))
            (OUTPUT_FOLDER @ ''/'' @ output_name fp) = Some output_text
       \<and> job_status (shared (final (process_book_job env fp opts w))) ''status''
            = Some (PStr ''completed'')
       \<and> job_status (shared (final (process_book_job env fp opts w))) ''output_file''
            = Some (PStr (output_name fp))
       \<and> job_status (shared (final (process_book_job env fp opts w))) ''progress''
            = Some (PInt 100)
       \<and> (\<forall>stem ext. os_path_basename fp = stem @ CHR ''.'' # ext \<and> CHR ''.'' \<notin> set ext
             \<and> (\<exists>c \<in> set stem. c \<noteq> CHR ''.'') \<longrightarrow> output_name fp = stem @ ''_audiobook.m4b'')"
proof -
  let ?o = "process_book_job env fp opts w"
  let ?P = "OUTPUT_FOLDER @ ''/'' @ output_name fp"
  from assms have av: "VOXNOVEL_AVAILABLE env"
    using how_Unavailable [of env fp opts w] by auto
  note j = output_name_inside [of fp]
  from process_book_job_trace [OF av, of fp opts w] assms obtain evs old where
    a: "list_all2 progress_event loop_steps evs"
    and wr: "writes (final ?o) =
             ([Token_write (Some fp),
               Status_write (processing_update env) (job_status w ++ map_of (processing_update env))]
              @ evs) @
             [File_write ?P output_text,
              Status_write (completed_update (output_name fp)) (job_status (shared (final ?o))),
              Token_write None]"
    and js: "job_status (shared (final ?o)) = old ++ map_of (completed_update (output_name fp))"
    and dk: "disk (shared (final ?o)) ?P = Some output_text"
    by (auto simp: j(1))
  let ?pre = "[Token_write (Some fp),
               Status_write (processing_update env) (job_status w ++ map_of (processing_update env))]
              @ evs"
  have "\<not> list_ex is_file_write ?pre"
    using progress_events_facts(3) [OF a] by (simp add: is_file_write_def)
  moreover have "''completed'' \<notin> set (concat (map status_written ?pre))"
    using progress_events_facts(2) [OF a] by simp
  ultimately have 1: "\<exists>pre. writes (final ?o) =
            pre @ [File_write ?P output_text,
                   Status_write (completed_update (output_name fp)) (job_status (shared (final ?o))),
                   Token_write None]
          \<and> \<not> list_ex is_file_write pre
          \<and> ''completed'' \<notin> set (concat (map status_written pre))"
    using wr by blast
  have 2: "directly_inside OUTPUT_FOLDER ?P" using j by simp
  have 3: "job_status (shared (final ?o)) ''status'' = Some (PStr ''completed'')"
    "job_status (shared (final ?o)) ''output_file'' = Some (PStr (output_name fp))"
    "job_status (shared (final ?o)) ''progress'' = Some (PInt 100)"
    unfolding js by (simp_all add: completed_update_def)
  have 4: "\<forall>stem ext. os_path_basename fp = stem @ CHR ''.'' # ext \<and> CHR ''.'' \<notin> set ext
             \<and> (\<exists>c \<in> set stem. c \<noteq> CHR ''.'') \<longrightarrow> output_name fp = stem @ ''_audiobook.m4b''"
  proof (intro allI impI)
    fix stem ext
    assume h: "os_path_basename fp = stem @ CHR ''.'' # ext \<and> CHR ''.'' \<notin> set ext
             \<and> (\<exists>c \<in> set stem. c \<noteq> CHR ''.'')"
    then have "CHR ''/'' \<notin> set (stem @ CHR ''.'' # ext)"
      using os_path_basename_no_slash [of fp] by simp
    then have "os_path_splitext (stem @ CHR ''.'' # ext) = (stem, CHR ''.'' # ext)"
      using h by (intro os_path_splitext_stem) auto
    with h show "output_name fp = stem @ ''_audiobook.m4b''" by (simp add: output_name_def)
  qed
  from 1 2 dk 3 4 show ?thesis by blast
qed

theorem success_writes_one_output_witness:
  "how (process_book_job quiet_env ''/app/uploads/book.epub'' default_options initial_world) = Succeeded
   \<and> disk (shared (final (process_book_job quiet_env ''/app/uploads/book.epub'' default_options
        initial_world))) ''/app/output_audiobooks/book_audiobook.m4b''
       = Some ''This would be the generated audiobook file''
   \<and> job_status (shared (final (process_book_job quiet_env ''/app/uploads/book.epub''
        default_options initial_world))) ''output_file'' = Some (PStr ''book_audiobook.m4b'')
   \<and> job_status (shared (final (process_book_job quiet_env ''/app/uploads/book.epub''
        default_options initial_world))) ''status'' = Some (PStr ''completed'')"
proof -
  have s: "how (process_book_job quiet_env ''/app/uploads/book.epub'' default_options initial_world)
      = Succeeded" by (rule quiet_run_succeeds)
  show ?thesis
    using s success_writes_one_output [OF s]
    by (simp add: output_name_book OUTPUT_FOLDER_def output_text_def)
qed

section \<open>The worker without the collaborator\<close>

text \<open>
  Claim C9. When \<open>VOXNOVEL_AVAILABLE\<close> is false, an upload that is valid otherwise is still
  answered with status 200 and its worker is started. The worker then makes one write and
  returns: it sets the status to \<open>error\<close>, the progress to 0 and the message to
  \<open>VoxNovel modules not available\<close>. It never sets the status to \<open>processing\<close>, it leaves
  \<open>start_time\<close> and every other part of the shared state as they were, and it never writes
  the token.
\<close>

theorem unavailable_worker_goes_to_error:
  assumes "\<not> VOXNOVEL_AVAILABLE env"
    and "\<not> py_truthy (current_job w)"
    and "files req ''file'' = Some file"
    and "filename file \<noteq> []"
    and "allowed_file (filename file) = Inr True"
    and "save_raises env (os_path_join UPLOAD_FOLDER
           (secure_filename (unicode_decomp env) (filename file))) = None"
    and "get_options req = Inr opts"
  shows "fst (upload_file env req w) =
           Inr (jsonify [(''message'', ''File uploaded and processing started''),
                         (''filename'', secure_filename (unicode_decomp env) (filename file))] 200)
       \<and> threads (snd (upload_file env req w)) =
           threads w @ [(os_path_join UPLOAD_FOLDER
              (secure_filename (unicode_decomp env) (filename file)), opts)]
       \<and> process_book_job env fp opts w' =
           \<lparr>how = Unavailable,
            final = \<lparr>shared = w'\<lparr>job_status := job_status w' ++ map_of unavailable_update\<rparr>,
                     writes = [Status_write unavailable_update
                                 (job_status w' ++ map_of unavailable_update)]\<rparr>\<rparr>
       \<and> (job_status w' ++ map_of unavailable_update) ''status'' = Some (PStr ''error'')
       \<and> (job_status w' ++ map_of unavailable_update) ''progress'' = Some (PInt 0)
       \<and> (job_status w' ++ map_of unavailable_update) ''message''
            = Some (PStr ''VoxNovel modules not available'')
       \<and> (job_status w' ++ map_of unavailable_update) ''start_time'' = job_status w' ''start_time''
       \<and> current_job (shared (final (process_book_job env fp opts w'))) = current_job w'"
proof -
  have p: "process_book_job env fp opts w' =
           \<lparr>how = Unavailable,
            final = \<lparr>shared = w'\<lparr>job_status := job_status w' ++ map_of unavailable_update\<rparr>,
                     writes = [Status_write unavailable_update
                                 (job_status w' ++ map_of unavailable_update)]\<rparr>\<rparr>"
    using assms(1)
    by (simp add: process_book_job_def update_job_status_def Let_def unavailable_update_def)
  show ?thesis
    unfolding p upload_accepted [OF assms(2-7)]
    by (simp add: unavailable_update_def)
qed

theorem unavailable_worker_goes_to_error_witness:
  "\<not> VOXNOVEL_AVAILABLE missing_env
   \<and> fst (upload_file missing_env (book_request ''book.epub'' ''text'') initial_world) =
        Inr \<lparr>body = [(''message'', ''File uploaded and processing started''),
                      (''filename'', ''book.epub'')], code = 200\<rparr>
   \<and> threads (snd (upload_file missing_env (book_request ''book.epub'' ''text'') initial_world))
        = [(''/app/uploads/book.epub'', default_options)]
   \<and> how (process_book_job missing_env ''/app/uploads/book.epub'' default_options initial_world)
        = Unavailable
   \<and> job_status (shared (final (process_book_job missing_env ''/app/uploads/book.epub''
        default_options initial_world))) ''status'' = Some (PStr ''error'')
   \<and> job_status (shared (final (process_book_job missing_env ''/app/uploads/book.epub''
        default_options initial_world))) ''start_time'' = Some PNone
   \<and> current_job (shared (final (process_book_job missing_env ''/app/uploads/book.epub''
        default_options initial_world))) = None"
proof -
  let ?req = "book_request ''book.epub'' ''text''"
  let ?file = "\<lparr>filename = ''book.epub'', stream = ''text''\<rparr>"
  have n: "secure_filename (unicode_decomp missing_env) ''book.epub'' = ''book.epub''"
    by (simp add: missing_env_def quiet_env_def) code_simp
  have q: "os_path_join UPLOAD_FOLDER ''book.epub'' = ''/app/uploads/book.epub''" by code_simp
  have 0: "\<not> VOXNOVEL_AVAILABLE missing_env" by (simp add: missing_env_def)
  have 1: "\<not> py_truthy (current_job initial_world)"
    by (simp add: py_truthy_def initial_world_def)
  have 2: "files ?req ''file'' = Some ?file" by (simp add: book_request_def)
  have 3: "filename ?file \<noteq> []" by simp
  have "allowed_file ''book.epub'' = Inr True" by code_simp
  then have 4: "allowed_file (filename ?file) = Inr True" by simp
  have 5: "save_raises missing_env (os_path_join UPLOAD_FOLDER
           (secure_filename (unicode_decomp missing_env) (filename ?file))) = None"
    by (simp add: missing_env_def quiet_env_def)
  have 6: "get_options ?req = Inr default_options"
    by (simp add: get_options_def book_request_def form_get_def default_options_def py_lower_def
        py_lower_char_def)
  show ?thesis
    using 0 unavailable_worker_goes_to_error [OF 0 1 2 3 4 5 6,
        of "''/app/uploads/book.epub''" initial_world]
    by (simp add: n q jsonify_def initial_world_def initial_job_status_def unavailable_update_def)
qed

section \<open>The worker: supersession\<close>

text \<open>
  A run that ends at the \<open>return\<close> of a failed comparison has written the status
  \<open>processing\<close> and no other status, has written no file, and ends by clearing the token.
\<close>

lemma superseded_run_stops:
  assumes "how (process_book_job env fp opts w) = Superseded"
  shows "concat (map status_written (writes (final (process_book_job env fp opts w))))
           = [''processing'']
       \<and> \<not> list_ex is_file_write (writes (final (process_book_job env fp opts w)))
       \<and> last (writes (final (process_book_job env fp opts w))) = Token_write None"
proof -
  let ?o = "process_book_job env fp opts w"
  from assms have av: "VOXNOVEL_AVAILABLE env"
    using how_Unavailable [of env fp opts w] by auto
  from process_book_job_trace [OF av, of fp opts w] assms obtain k evs where
    a: "list_all2 progress_event (take k loop_steps) evs"
    and wr: "writes (final ?o) =
             [Token_write (Some fp),
              Status_write (processing_update env) (job_status w ++ map_of (processing_update env))]
             @ evs @ [Token_write None]"
    by auto
  show ?thesis
    unfolding wr
    using progress_events_facts(2,3) [OF a] by (simp add: is_file_write_def)
qed

lemma early_change_superseded:
  "how (process_book_job early_change_env ''/app/uploads/book.epub'' opts w) = Superseded"
  by (simp add: process_book_job_def try_block_def range_text time_sleep_def Let_def
      early_change_env_def quiet_env_def)

lemma superseded_run_stops_witness:
  "how (process_book_job early_change_env ''/app/uploads/book.epub'' default_options initial_world)
     = Superseded
   \<and> concat (map status_written (writes (final
        (process_book_job early_change_env ''/app/uploads/book.epub'' default_options initial_world))))
     = [''processing'']"
  using early_change_superseded [of default_options initial_world]
    superseded_run_stops [of early_change_env "''/app/uploads/book.epub''" default_options
      initial_world]
  by simp


section \<open>The job record: \<open>output_file\<close> and \<open>completed\<close>\<close>

lemma output_set_simps [simp]:
  "js ''output_file'' = Some PNone \<Longrightarrow> \<not> output_set js"
  "js ''output_file'' = Some (PStr n) \<Longrightarrow> output_set js"
  by (simp_all add: output_set_def)

lemma write_ok_simps [simp]:
  "write_ok env (Token_write v)"
  "write_ok env (File_write p c)"
  by (simp_all add: write_ok_def)












subsection \<open>Two workers on one path\<close>



end
